theory Spec2Isabelle
  imports Complex_Main "HOL-Library.Product_Lexorder" "HOL-Library.AList"
begin

section \<open>Exceptions\<close>

text \<open>
  The Python exceptions that the modelled code can raise.  A function that can raise
  returns \<open>py_error + 'a\<close>, with \<open>Inl\<close> for the exception.  All of them are
  subclasses of Python's \<open>Exception\<close>; \<open>RequestException\<close> stands for whatever
  \<open>requests.post\<close> raises, \<open>JSONDecodeError\<close> for a failure of \<open>response.json()\<close>.
\<close>

datatype py_error =
    ValueError | KeyError | IndexError | TypeError | ZeroDivisionError
  | RequestException | JSONDecodeError

section \<open>Calendar dates\<close>

text \<open>
  Every \<open>datetime\<close> of the program comes from \<open>strptime(s, "%Y-%m-%d")\<close> or from
  adding \<open>relativedelta(months=1)\<close> to one, so its time of day is always midnight: a
  datetime is modelled by its (year, month, day).  The order of Python's datetimes is then
  the lexicographic order of the triples.
\<close>

type_synonym date = "nat \<times> nat \<times> nat"

definition isleap :: "nat \<Rightarrow> bool" where
  "isleap y = (y mod 4 = 0 \<and> (y mod 100 \<noteq> 0 \<or> y mod 400 = 0))"

definition days_in_month :: "nat \<Rightarrow> nat \<Rightarrow> nat" where
  "days_in_month y m =
     (if m = 2 then (if isleap y then 29 else 28)
      else if m = 4 \<or> m = 6 \<or> m = 9 \<or> m = 11 then 30 else 31)"

definition valid_date :: "date \<Rightarrow> bool" where
  "valid_date dt = (case dt of (y, m, d) \<Rightarrow>
     1 \<le> y \<and> y \<le> 9999 \<and> 1 \<le> m \<and> m \<le> 12 \<and> 1 \<le> d \<and> d \<le> days_in_month y m)"

text \<open>The constructor of \<open>datetime\<close> (and \<open>datetime.replace\<close>): a ValueError outside
  MINYEAR..MAXYEAR, for a month outside 1..12 or a day the month does not have.\<close>

definition datetime_new :: "nat \<Rightarrow> nat \<Rightarrow> nat \<Rightarrow> py_error + date" where
  "datetime_new y m d = (if valid_date (y, m, d) then Inr (y, m, d) else Inl ValueError)"

subsection \<open>strptime with the format %Y-%m-%d\<close>

text \<open>
  CPython's \<open>_strptime\<close> turns the format into the regular expression
  \<^verbatim>\<open>(?P<Y>\d\d\d\d)-(?P<m>1[0-2]|0[1-9]|[1-9])-(?P<d>3[0-1]|[1-2]\d|0[1-9]|[1-9]| [1-9])\<close>,
  matches it at the start of the string, raises ValueError when there is no match or when
  text remains after the match, and then builds the date (ValueError for a date that does
  not exist).  The alternatives of a group are tried in the order written; the functions
  below list the candidates of a group in that order, each with the text left after it.
  A string is a list of 8-bit characters, each standing for the code point of that
  number, among which \<open>\d\<close> matches the ten ASCII digits only; text with other
  characters is outside the model.
\<close>

definition is_digit :: "char \<Rightarrow> bool" where
  "is_digit c = (48 \<le> (of_char c :: nat) \<and> (of_char c :: nat) \<le> 57)"

definition digit_val :: "char \<Rightarrow> nat" where
  "digit_val c = of_char c - 48"

definition in_range :: "char \<Rightarrow> char \<Rightarrow> char \<Rightarrow> bool" where
  "in_range lo hi c = ((of_char lo :: nat) \<le> of_char c \<and> (of_char c :: nat) \<le> of_char hi)"

fun match_month :: "string \<Rightarrow> (nat \<times> string) list" where
  "match_month [] = []"
| "match_month [c] = (if in_range (CHR ''1'') (CHR ''9'') c then [(digit_val c, [])] else [])"
| "match_month (c1 # c2 # r) =
     (if c1 = CHR ''1'' \<and> in_range (CHR ''0'') (CHR ''2'') c2
        then [(10 + digit_val c2, r)] else []) @
     (if c1 = CHR ''0'' \<and> in_range (CHR ''1'') (CHR ''9'') c2
        then [(digit_val c2, r)] else []) @
     (if in_range (CHR ''1'') (CHR ''9'') c1 then [(digit_val c1, c2 # r)] else [])"

fun match_day :: "string \<Rightarrow> (nat \<times> string) list" where
  "match_day [] = []"
| "match_day [c] = (if in_range (CHR ''1'') (CHR ''9'') c then [(digit_val c, [])] else [])"
| "match_day (c1 # c2 # r) =
     (if c1 = CHR ''3'' \<and> in_range (CHR ''0'') (CHR ''1'') c2
        then [(30 + digit_val c2, r)] else []) @
     (if in_range (CHR ''1'') (CHR ''2'') c1 \<and> is_digit c2
        then [(10 * digit_val c1 + digit_val c2, r)] else []) @
     (if c1 = CHR ''0'' \<and> in_range (CHR ''1'') (CHR ''9'') c2
        then [(digit_val c2, r)] else []) @
     (if in_range (CHR ''1'') (CHR ''9'') c1 then [(digit_val c1, c2 # r)] else []) @
     (if c1 = CHR '' '' \<and> in_range (CHR ''1'') (CHR ''9'') c2
        then [(digit_val c2, r)] else [])"

text \<open>The month candidates that are followed by a hyphen and a day, in the order in
  which the backtracking matcher finds them; the first one is the match.\<close>

definition match_month_day :: "string \<Rightarrow> (nat \<times> nat \<times> string) list" where
  "match_month_day s =
     concat (map (\<lambda>(m, r). case r of
                      [] \<Rightarrow> []
                    | c # t \<Rightarrow> if c = CHR ''-'' then map (\<lambda>(d, r'). (m, d, r')) (match_day t) else [])
                 (match_month s))"

fun strptime :: "string \<Rightarrow> py_error + date" where
  "strptime (y1 # y2 # y3 # y4 # c # rest) =
     (if is_digit y1 \<and> is_digit y2 \<and> is_digit y3 \<and> is_digit y4 \<and> c = CHR ''-'' then
        (case match_month_day rest of
           [] \<Rightarrow> Inl ValueError
         | (m, d, r) # _ \<Rightarrow>
             if r \<noteq> [] then Inl ValueError
             else datetime_new (1000 * digit_val y1 + 100 * digit_val y2 + 10 * digit_val y3
                                + digit_val y4) m d)
      else Inl ValueError)"
| "strptime _ = Inl ValueError"

subsection \<open>Adding relativedelta(months=1)\<close>

text \<open>
  \<open>dt + relativedelta(months=1)\<close> as dateutil computes it: the month is increased, a
  month above 12 carries into the year, the day is cut to the length of the new month,
  and \<open>dt.replace\<close> builds the result (ValueError when the year passes 9999).
\<close>

definition add_one_month :: "date \<Rightarrow> py_error + date" where
  "add_one_month dt = (case dt of (y, m, d) \<Rightarrow>
     (let month = m + 1;
          year = (if month > 12 then y + 1 else y);
          month = (if month > 12 then month - 12 else month);
          day = min (days_in_month year month) d
      in datetime_new year month day))"

subsection \<open>to_iso_date_range\<close>

text \<open>\<open>strftime("%Y-%m-%dT%H:%M:%S.000Z")\<close> of a datetime at midnight.  The year is
  written with four digits, which is what every platform prints for the years from 1000
  on; whether an earlier year is padded with zeros is left to the C library.\<close>

definition digit_char :: "nat \<Rightarrow> char" where
  "digit_char n = ''0123456789'' ! (n mod 10)"

definition strftime_iso :: "date \<Rightarrow> string" where
  "strftime_iso dt = (case dt of (y, m, d) \<Rightarrow>
     [digit_char (y div 1000), digit_char (y div 100), digit_char (y div 10), digit_char y]
     @ ''-'' @ [digit_char (m div 10), digit_char m]
     @ ''-'' @ [digit_char (d div 10), digit_char d] @ ''T00:00:00.000Z'')"

definition to_iso_date_range :: "date \<times> date \<Rightarrow> string list" where
  "to_iso_date_range w = [strftime_iso (fst w), strftime_iso (snd w)]"

subsection \<open>make_monthly_date_ranges\<close>

text \<open>
  The while loop of \<open>make_monthly_date_ranges\<close>, on the parsed dates.  It yields the
  pairs \<open>(current_date, range_end)\<close> in the order in which the source appends their
  ISO rendering; an exception of the month arithmetic ends the loop with that exception.
\<close>

function monthly_windows :: "date \<Rightarrow> date \<Rightarrow> py_error + (date \<times> date) list" where
  "monthly_windows current_date end_date_dt =
     (if current_date < end_date_dt then
        (case add_one_month current_date of
           Inl e \<Rightarrow> Inl e
         | Inr next_month \<Rightarrow>
             (case monthly_windows (min next_month end_date_dt) end_date_dt of
                Inl e \<Rightarrow> Inl e
              | Inr date_ranges \<Rightarrow>
                  Inr ((current_date, min next_month end_date_dt) # date_ranges)))
      else Inr [])"
  by pat_completeness auto

definition month_index :: "date \<Rightarrow> nat" where
  "month_index dt = (case dt of (y, m, d) \<Rightarrow> 12 * y + min m 12)"

lemma add_one_month_index:
  assumes "add_one_month c = Inr n"
  shows "month_index c < month_index n"
  using assms
  by (cases c) (auto simp: add_one_month_def month_index_def datetime_new_def Let_def
      split: if_splits)

lemma month_index_le_end:
  assumes "(c :: date) < e"
  shows "month_index c \<le> 12 * fst e + 12"
  using assms by (cases c; cases e) (auto simp: month_index_def)

termination monthly_windows
proof (relation "measure (\<lambda>(c, e). if c < e then 12 * fst e + 13 - month_index c else 0)")
  show "wf (measure (\<lambda>(c :: date, e :: date).
              if c < e then 12 * fst e + 13 - month_index c else 0))"
    by simp
next
  fix current_date end_date_dt :: date and next_month :: date
  assume lt: "current_date < end_date_dt"
    and nm: "add_one_month current_date = Inr next_month"
  have up: "month_index current_date < month_index next_month"
    using nm by (rule add_one_month_index)
  have bound: "month_index current_date \<le> 12 * fst end_date_dt + 12"
    using lt by (rule month_index_le_end)
  show "((min next_month end_date_dt, end_date_dt), (current_date, end_date_dt))
          \<in> measure (\<lambda>(c, e). if c < e then 12 * fst e + 13 - month_index c else 0)"
  proof (cases "next_month < end_date_dt")
    case True
    then have "min next_month end_date_dt = next_month" by simp
    with True lt up bound show ?thesis by simp
  next
    case False
    then have "min next_month end_date_dt = end_date_dt" by simp
    with lt bound show ?thesis by simp
  qed
qed

definition make_monthly_date_ranges :: "string \<Rightarrow> string \<Rightarrow> py_error + string list list" where
  "make_monthly_date_ranges start_date end_date =
     (case strptime start_date of
        Inl e \<Rightarrow> Inl e
      | Inr current_date \<Rightarrow>
          (case strptime end_date of
             Inl e \<Rightarrow> Inl e
           | Inr end_date_dt \<Rightarrow>
               (case monthly_windows current_date end_date_dt of
                  Inl e \<Rightarrow> Inl e
                | Inr date_ranges \<Rightarrow> Inr (map to_iso_date_range date_ranges))))"

subsection \<open>The date ranges of explore_map_multiple\<close>

text \<open>
  \<open>to_iso_date_range\<close> called with two strings, as line 351 does: \<open>ensure_dt\<close> parses
  each of them with \<open>strptime(d, "%Y-%m-%d")\<close>, the start first, and the two datetimes
  are rendered; the two dates are not compared.
\<close>

definition ensure_dt :: "string \<Rightarrow> py_error + date" where
  "ensure_dt d = strptime d"

definition to_iso_date_range_of_strings :: "string \<Rightarrow> string \<Rightarrow> py_error + string list" where
  "to_iso_date_range_of_strings start_date end_date =
     (case ensure_dt start_date of
        Inl e \<Rightarrow> Inl e
      | Inr dt_start \<Rightarrow>
          (case ensure_dt end_date of
             Inl e \<Rightarrow> Inl e
           | Inr dt_end \<Rightarrow> Inr (to_iso_date_range (dt_start, dt_end))))"

text \<open>
  Lines 348-351 of \<open>explore_map_multiple\<close>, the date partitioning of a search: the
  monthly ranges when \<open>date_type\<close> is \<open>flexible\<close>, and otherwise the one range of the
  two dates as they are given.  The arguments are \<open>date_range[0]\<close> and \<open>date_range[1]\<close>.
\<close>

definition formatted_date_range :: "string \<Rightarrow> string \<Rightarrow> string \<Rightarrow> py_error + string list list" where
  "formatted_date_range date_type start_date end_date =
     (if date_type = ''flexible'' then make_monthly_date_ranges start_date end_date
      else (case to_iso_date_range_of_strings start_date end_date of
              Inl e \<Rightarrow> Inl e
            | Inr r \<Rightarrow> Inr [r]))"

lemmas date_eval =
  match_month_day_def in_range_def is_digit_def digit_val_def datetime_new_def
  valid_date_def days_in_month_def isleap_def

text \<open>What the partition claims say of a list of windows, as a recursive predicate:
  the windows start at \<open>c\<close>, each one starts where the one before it ended, is not empty,
  ends at the start plus one month or at \<open>e\<close> if that comes first, and the last one
  ends at \<open>e\<close>.\<close>

fun chained :: "date \<Rightarrow> date \<Rightarrow> (date \<times> date) list \<Rightarrow> bool" where
  "chained c e [] = (c = e)"
| "chained c e (w # ws) =
     (fst w = c \<and> c < snd w \<and> snd w \<le> e \<and>
      (case add_one_month c of Inl x \<Rightarrow> False | Inr n \<Rightarrow> snd w = min n e) \<and>
      chained (snd w) e ws)"

section \<open>make_polygon\<close>

text \<open>
  Python floats are idealised as real numbers throughout: rounding, overflow, infinities
  and NaN are outside the model.  A float division raises ZeroDivisionError for a zero
  divisor; over the reals \<open>cos (radians lat)\<close> is zero at the poles, so the division by
  \<open>miles_per_lon\<close> carries that branch.  \<open>miles_per_lat\<close> is the constant 69.0.
\<close>

record point =
  pt_lat :: real
  pt_lon :: real

definition radians :: "real \<Rightarrow> real" where
  "radians x = x * pi / 180"

definition truediv :: "real \<Rightarrow> real \<Rightarrow> py_error + real" where
  "truediv a b = (if b = 0 then Inl ZeroDivisionError else Inr (a / b))"

definition directions_deg :: "real list" where
  "directions_deg = [90, 45, 0, 315, 270, 225, 180, 135]"

definition polygon_point :: "real \<Rightarrow> real \<Rightarrow> real \<Rightarrow> real \<Rightarrow> real \<Rightarrow> real \<Rightarrow> py_error + point" where
  "polygon_point lat lon distance_miles miles_per_lat miles_per_lon angle =
     (let angle_rad = radians angle;
          d_lat = (distance_miles * sin angle_rad) / miles_per_lat
      in case truediv (distance_miles * cos angle_rad) miles_per_lon of
           Inl e \<Rightarrow> Inl e
         | Inr d_lon \<Rightarrow> Inr \<lparr>pt_lat = lat + d_lat, pt_lon = lon + d_lon\<rparr>)"

fun polygon_loop :: "real \<Rightarrow> real \<Rightarrow> real \<Rightarrow> real \<Rightarrow> real \<Rightarrow> real list \<Rightarrow> py_error + point list" where
  "polygon_loop lat lon distance_miles miles_per_lat miles_per_lon [] = Inr []"
| "polygon_loop lat lon distance_miles miles_per_lat miles_per_lon (angle # angles) =
     (case polygon_point lat lon distance_miles miles_per_lat miles_per_lon angle of
        Inl e \<Rightarrow> Inl e
      | Inr pt \<Rightarrow>
          (case polygon_loop lat lon distance_miles miles_per_lat miles_per_lon angles of
             Inl e \<Rightarrow> Inl e
           | Inr polygon \<Rightarrow> Inr (pt # polygon)))"

definition make_polygon :: "real \<Rightarrow> real \<Rightarrow> real \<Rightarrow> py_error + point list" where
  "make_polygon lat lon distance_miles =
     (let lat_rad = radians lat;
          miles_per_lat = 69.0;
          miles_per_lon = 69.172 * cos lat_rad
      in polygon_loop lat lon distance_miles miles_per_lat miles_per_lon directions_deg)"

section \<open>get_driving_time\<close>

text \<open>
  The value of \<open>response.json()\<close>.  A JSON object is the list of the items of the parsed
  dict (its keys are strings); \<open>JInt\<close> and \<open>JFloat\<close> are Python's int and float.
\<close>

datatype json =
    JNull | JBool bool | JInt int | JFloat real | JStr string
  | JArr "json list" | JObj "(string \<times> json) list"

text \<open>\<open>x['key']\<close>: KeyError for a dict without the key, TypeError for everything that
  is not a dict (a list or a string wants an integer index, the others have no
  subscript).\<close>

fun getitem_key :: "json \<Rightarrow> string \<Rightarrow> py_error + json" where
  "getitem_key (JObj items) k = (case map_of items k of None \<Rightarrow> Inl KeyError | Some v \<Rightarrow> Inr v)"
| "getitem_key j k = Inl TypeError"

text \<open>\<open>x[0]\<close>: the first element of a list, the first character of a string (a string
  of length one), IndexError when they are empty, KeyError for a dict (no key of a parsed
  JSON object is the integer 0), TypeError otherwise.\<close>

fun getitem_0 :: "json \<Rightarrow> py_error + json" where
  "getitem_0 (JArr []) = Inl IndexError"
| "getitem_0 (JArr (v # vs)) = Inr v"
| "getitem_0 (JStr []) = Inl IndexError"
| "getitem_0 (JStr (c # cs)) = Inr (JStr [c])"
| "getitem_0 (JObj items) = Inl KeyError"
| "getitem_0 j = Inl TypeError"

text \<open>\<open>x / 60\<close>: defined for int, float and bool (a subclass of int), TypeError
  otherwise.\<close>

fun truediv_60 :: "json \<Rightarrow> py_error + real" where
  "truediv_60 (JInt i) = Inr (of_int i / 60)"
| "truediv_60 (JFloat x) = Inr (x / 60)"
| "truediv_60 (JBool b) = Inr ((if b then 1 else 0) / 60)"
| "truediv_60 j = Inl TypeError"

text \<open>\<open>x['routes'][0]['summary']['duration'] / 60\<close>, left to right.\<close>

definition route_minutes :: "json \<Rightarrow> py_error + real" where
  "route_minutes j =
     (case getitem_key j ''routes'' of Inl e \<Rightarrow> Inl e | Inr routes \<Rightarrow>
     (case getitem_0 routes of Inl e \<Rightarrow> Inl e | Inr route \<Rightarrow>
     (case getitem_key route ''summary'' of Inl e \<Rightarrow> Inl e | Inr summary \<Rightarrow>
     (case getitem_key summary ''duration'' of Inl e \<Rightarrow> Inl e | Inr duration \<Rightarrow>
        truediv_60 duration))))"

text \<open>
  The routing provider is a parameter: \<open>post key coordinates\<close> is the outcome of the one
  \<open>requests.post\<close>, an exception or a response, and a response is the outcome of its
  \<open>json()\<close>, an exception or a JSON value.  The number of calls made so far is threaded
  through as state.  The result is \<open>Inl\<close> when the function raises, \<open>Inr None\<close> when it
  returns None, \<open>Inr (Some t)\<close> when it returns \<open>t\<close> minutes.
\<close>

type_synonym response = "py_error + json"

type_synonym routing_post = "string \<Rightarrow> real list list \<Rightarrow> py_error + response"

fun is_Exception :: "py_error \<Rightarrow> bool" where
  "is_Exception ValueError = True"
| "is_Exception KeyError = True"
| "is_Exception IndexError = True"
| "is_Exception TypeError = True"
| "is_Exception ZeroDivisionError = True"
| "is_Exception RequestException = True"
| "is_Exception JSONDecodeError = True"

text \<open>\<open>try: return body  except (KeyError, Exception): return None\<close>\<close>

definition try_except_Exception :: "py_error + real \<Rightarrow> py_error + real option" where
  "try_except_Exception body =
     (case body of
        Inr v \<Rightarrow> Inr (Some v)
      | Inl e \<Rightarrow> if e = KeyError \<or> is_Exception e then Inr None else Inl e)"

definition get_driving_time ::
  "string option \<Rightarrow> routing_post \<Rightarrow> nat \<Rightarrow> real \<Rightarrow> real \<Rightarrow> real \<Rightarrow> real
     \<Rightarrow> (py_error + real option) \<times> nat" where
  "get_driving_time OPENROUTESERVICE_API_KEY post calls resort_lat resort_lon house_lat house_lon =
     (case OPENROUTESERVICE_API_KEY of
        None \<Rightarrow> (Inr None, calls)
      | Some api_key \<Rightarrow>
          if api_key = [] then (Inr None, calls)
          else
            (let coordinates = [[house_lon, house_lat], [resort_lon, resort_lat]] in
             (try_except_Exception
                (case post api_key coordinates of
                   Inl e \<Rightarrow> Inl e
                 | Inr call \<Rightarrow> (case call of Inl e \<Rightarrow> Inl e | Inr j \<Rightarrow> route_minutes j)),
              Suc calls)))"

section \<open>resort_map_multiple: deduplication and ranking\<close>

text \<open>
  A raw listing is the dict that \<open>explore_map_multiple\<close> builds for a home (lines
  384-398), after \<open>resort_map_multiple\<close> has tagged it with the resort (lines 429-435)
  and stored its driving time (lines 441-448).  The key \<open>id\<close> is the field
  \<open>listing_id\<close>; \<open>None\<close> is Python's None.  Driving times are reals (see make_polygon
  for the idealisation of floats).
\<close>

record availability =
  avail_id :: string
  avail_homeId :: string
  startDate :: string
  endDate :: string

record raw_listing =
  listing_id :: "string option"
  homeId :: "string option"
  title :: "string option"
  destination :: "string option"
  lat :: "real option"
  lon :: "real option"
  availabilitiesWithoutBookedDates :: "availability list"
  maxGuestsLimit :: "int option"
  petPreference :: "string option"
  petHostingDetails :: "string option"
  bedroomsCount :: "int option"
  bathrooms :: "real option"
  imageUrl :: "string option"
  resort :: string
  state :: "string option"
  region :: string
  resort_lat :: real
  resort_lon :: real
  driving_time_minutes :: "real option"

record resort_entry =
  entry_resort :: string
  entry_state :: "string option"
  entry_region :: string
  entry_driving_time_minutes :: "real option"

text \<open>An aggregated home is \<open>result.copy()\<close> of the first listing seen for the home
  (the field \<open>base\<close>) with the two keys the loop adds.\<close>

record aggregated_home =
  base :: raw_listing
  resorts :: "resort_entry list"
  min_driving_time :: "real option"

definition resort_entry_of :: "raw_listing \<Rightarrow> resort_entry" where
  "resort_entry_of result =
     \<lparr>entry_resort = resort result, entry_state = state result,
      entry_region = region result,
      entry_driving_time_minutes = driving_time_minutes result\<rparr>"

text \<open>\<open>homes_dict\<close> is a Python dict, which keeps its keys in the order of their first
  insertion: an association list with distinct keys, where \<open>AList.update\<close> replaces the
  value of a key in place and puts a new key at the end.\<close>

type_synonym homes_dict = "(string \<times> aggregated_home) list"

text \<open>One round of the loop of lines 452-479.  \<open>not home_id\<close> holds for None and for
  the empty string.\<close>

definition dedup_step :: "homes_dict \<Rightarrow> raw_listing \<Rightarrow> homes_dict" where
  "dedup_step homes_dict result =
     (case listing_id result of
        None \<Rightarrow> homes_dict
      | Some home_id \<Rightarrow>
          if home_id = [] then homes_dict
          else
            (case map_of homes_dict home_id of
               None \<Rightarrow>
                 AList.update home_id
                   \<lparr>base = result, resorts = [resort_entry_of result],
                    min_driving_time = driving_time_minutes result\<rparr> homes_dict
             | Some home \<Rightarrow>
                 AList.update home_id
                   (home\<lparr>resorts := resorts home @ [resort_entry_of result],
                         min_driving_time :=
                           (case driving_time_minutes result of
                              None \<Rightarrow> min_driving_time home
                            | Some t \<Rightarrow>
                                (case min_driving_time home of
                                   None \<Rightarrow> Some t
                                 | Some current_min \<Rightarrow>
                                     if t < current_min then Some t else Some current_min))\<rparr>)
                   homes_dict))"

text \<open>The sort key \<open>x if x is not None else float('inf')\<close>: a pair ordered
  lexicographically, so that every known time is below the key of None and two keys of
  None are equal.\<close>

definition inf_key :: "real option \<Rightarrow> bool \<times> real" where
  "inf_key t = (case t of None \<Rightarrow> (True, 0) | Some x \<Rightarrow> (False, x))"

definition sort_resorts :: "aggregated_home \<Rightarrow> aggregated_home" where
  "sort_resorts home =
     home\<lparr>resorts := sort_key (\<lambda>x. inf_key (entry_driving_time_minutes x)) (resorts home)\<rparr>"

text \<open>Lines 450-491 of \<open>resort_map_multiple\<close>, from \<open>results_full\<close> as the collection
  and driving-time loops leave it.  Python's \<open>list.sort\<close> is stable, as is \<open>sort_key\<close>.\<close>

definition resort_map_multiple :: "raw_listing list \<Rightarrow> aggregated_home list" where
  "resort_map_multiple results_full =
     (let homes_dict = foldl dedup_step [] results_full;
          deduplicated_results = map snd homes_dict;
          deduplicated_results = map sort_resorts deduplicated_results
      in sort_key (\<lambda>x. inf_key (min_driving_time x)) deduplicated_results)"

section \<open>search: filtering by availability and formatting\<close>

text \<open>The format \<open>{x:.1f}\<close> of a real: one decimal, ties to the even digit.\<close>

definition round_half_even :: "real \<Rightarrow> int" where
  "round_half_even x =
     (let f = \<lfloor>x\<rfloor>; r = x - of_int f
      in if r < 1 / 2 then f else if 1 / 2 < r then f + 1 else if even f then f else f + 1)"

fun str_nat :: "nat \<Rightarrow> string" where
  "str_nat n = (if n < 10 then [digit_char n] else str_nat (n div 10) @ [digit_char n])"

definition format_1f :: "real \<Rightarrow> string" where
  "format_1f x =
     (let n = nat (round_half_even (\<bar>x\<bar> * 10))
      in (if x < 0 then ''-'' else []) @ str_nat (n div 10) @ ''.'' @ [digit_char n])"

text \<open>An element of the \<open>resorts\<close> array of a result: an entry of the home, or the
  two-key dict of the fallback branch (lines 752-757).\<close>

datatype resort_info = Entry resort_entry | Fallback string "real option"

record search_result =
  sr_id :: "string option"
  sr_name :: "string option"
  sr_resort :: string
  sr_resorts :: "resort_info list"
  sr_distance :: string
  sr_driveTime :: "real option"
  sr_bedrooms :: "int option"
  sr_bathrooms :: "real option"
  sr_maxGuests :: "int option"
  sr_imageUrl :: string
  sr_lat :: "real option"
  sr_lng :: "real option"
  sr_availabilities :: "availability list"
  sr_petPreference :: "string option"
  sr_petHostingDetails :: "string option"
  sr_homeUrl :: string

definition placeholder_image :: string where
  "placeholder_image = ''https://images.unsplash.com/photo-1518780664697-55e3ad937233?w=800&q=80''"

text \<open>The inner loop of lines 739-746: the availabilities that overlap the search
  dates, or the ValueError of the first date that does not parse.\<close>

fun matching_availabilities ::
  "date \<Rightarrow> date \<Rightarrow> availability list \<Rightarrow> py_error + availability list" where
  "matching_availabilities search_start search_end [] = Inr []"
| "matching_availabilities search_start search_end (avail # availabilities) =
     (case strptime (startDate avail) of
        Inl e \<Rightarrow> Inl e
      | Inr avail_start \<Rightarrow>
          (case strptime (endDate avail) of
             Inl e \<Rightarrow> Inl e
           | Inr avail_end \<Rightarrow>
               (case matching_availabilities search_start search_end availabilities of
                  Inl e \<Rightarrow> Inl e
                | Inr matching \<Rightarrow>
                    Inr (if avail_start \<le> search_end \<and> avail_end \<ge> search_start
                         then avail # matching else matching))))"

text \<open>The dict of lines 759-776.  A Python value is false in a condition when it is
  None, the number zero or the empty string.\<close>

definition format_result :: "aggregated_home \<Rightarrow> availability list \<Rightarrow> search_result" where
  "format_result r matching =
     \<lparr>sr_id = homeId (base r),
      sr_name = title (base r),
      sr_resort = resort (base r),
      sr_resorts =
        (if resorts r = []
         then [Fallback (resort (base r)) (driving_time_minutes (base r))]
         else map Entry (resorts r)),
      sr_distance =
        (case driving_time_minutes (base r) of
           None \<Rightarrow> ''N/A''
         | Some t \<Rightarrow> if t = 0 then ''N/A'' else format_1f t @ '' min''),
      sr_driveTime = driving_time_minutes (base r),
      sr_bedrooms = bedroomsCount (base r),
      sr_bathrooms = bathrooms (base r),
      sr_maxGuests = maxGuestsLimit (base r),
      sr_imageUrl =
        (case imageUrl (base r) of
           None \<Rightarrow> placeholder_image
         | Some url \<Rightarrow> if url = [] then placeholder_image else url),
      sr_lat = lat (base r),
      sr_lng = lon (base r),
      sr_availabilities = matching,
      sr_petPreference = petPreference (base r),
      sr_petHostingDetails = petHostingDetails (base r),
      sr_homeUrl = ''https://livekindred.com/home/''
        @ (case homeId (base r) of None \<Rightarrow> ''None'' | Some h \<Rightarrow> h)\<rparr>"

fun format_results :: "date \<Rightarrow> date \<Rightarrow> aggregated_home list \<Rightarrow> py_error + search_result list" where
  "format_results search_start search_end [] = Inr []"
| "format_results search_start search_end (r # results) =
     (case matching_availabilities search_start search_end
             (availabilitiesWithoutBookedDates (base r)) of
        Inl e \<Rightarrow> Inl e
      | Inr matching \<Rightarrow>
          (case format_results search_start search_end results of
             Inl e \<Rightarrow> Inl e
           | Inr formatted_results \<Rightarrow>
               Inr (if length matching > 0
                    then format_result r matching # formatted_results
                    else formatted_results)))"

text \<open>Lines 731-778 of \<open>search\<close>, from the list that \<open>resort_map_multiple\<close> returned;
  an exception is what the handler of line 780 turns into the error response.\<close>

definition search :: "string \<Rightarrow> string \<Rightarrow> aggregated_home list \<Rightarrow> py_error + search_result list" where
  "search start_date end_date results =
     (case strptime start_date of
        Inl e \<Rightarrow> Inl e
      | Inr search_start \<Rightarrow>
          (case strptime end_date of
             Inl e \<Rightarrow> Inl e
           | Inr search_end \<Rightarrow> format_results search_start search_end results))"

section \<open>Notions used to state the properties\<close>

text \<open>The vertex that the specification gives for the angle \<open>a\<close> (in degrees).\<close>

definition spec_vertex :: "real \<Rightarrow> real \<Rightarrow> real \<Rightarrow> real \<Rightarrow> point" where
  "spec_vertex clat clon radiusMiles a =
     \<lparr>pt_lat = clat + radiusMiles * sin (radians a) / 69.0,
      pt_lon = clon + radiusMiles * cos (radians a) / (69.172 * cos (radians clat))\<rparr>"

text \<open>The order of driving times with an unknown time as +infinity: anything is below
  unknown, unknown is below nothing known.\<close>

fun time_le :: "real option \<Rightarrow> real option \<Rightarrow> bool" where
  "time_le a None = True"
| "time_le None (Some y) = False"
| "time_le (Some x) (Some y) = (x \<le> y)"

text \<open>A listing that passes the test \<open>if not home_id: continue\<close>, the listings that carry
  a given id, and what it means for \<open>m\<close> to be the minimum of the known times of a list
  (unknown when none is known).\<close>

definition truthy_id :: "raw_listing \<Rightarrow> bool" where
  "truthy_id r = (listing_id r \<noteq> None \<and> listing_id r \<noteq> Some [])"

definition listings_of :: "string \<Rightarrow> raw_listing list \<Rightarrow> raw_listing list" where
  "listings_of k rs = filter (\<lambda>r. listing_id r = Some k) rs"

definition min_ok :: "real option \<Rightarrow> real option list \<Rightarrow> bool" where
  "min_ok m ts =
     ((m = None \<longleftrightarrow> (\<forall>t\<in>set ts. t = None)) \<and>
      (\<forall>x. m = Some x \<longrightarrow> Some x \<in> set ts \<and> (\<forall>y. Some y \<in> set ts \<longrightarrow> x \<le> y)))"

text \<open>The invariant of the deduplication loop after the listings \<open>rs\<close>: the keys of the
  dict are distinct and are the non-empty ids seen so far; the home of an id has the
  first listing with that id as its base, one resort entry for every listing with that
  id, in the order of the listings, and the minimum of their known times.\<close>

definition dedup_inv :: "raw_listing list \<Rightarrow> homes_dict \<Rightarrow> bool" where
  "dedup_inv rs d =
     (distinct (map fst d) \<and>
      (\<forall>k. map_of d k = None \<longrightarrow> k = [] \<or> listings_of k rs = []) \<and>
      (\<forall>k h. map_of d k = Some h \<longrightarrow>
         k \<noteq> [] \<and>
         (\<exists>first rest. listings_of k rs = first # rest \<and> base h = first \<and>
            resorts h = map resort_entry_of (first # rest)) \<and>
         min_ok (min_driving_time h) (map driving_time_minutes (listings_of k rs))))"

text \<open>What the specification calls an overlap of an availability window with the
  search range: \<open>availStart \<le> searchEnd\<close> and \<open>availEnd \<ge> searchStart\<close>, on the dates
  that the strings of the window denote.\<close>

definition avail_overlaps :: "date \<Rightarrow> date \<Rightarrow> availability \<Rightarrow> bool" where
  "avail_overlaps search_start search_end avail =
     (case strptime (startDate avail) of
        Inl e \<Rightarrow> False
      | Inr avail_start \<Rightarrow>
          (case strptime (endDate avail) of
             Inl e \<Rightarrow> False
           | Inr avail_end \<Rightarrow> avail_start \<le> search_end \<and> avail_end \<ge> search_start))"

text \<open>Example listings: one home found near Vail (47 minutes) and near Aspen (12
  minutes), available 2025-01-01..2025-01-12 and 2025-01-21..2025-01-25; the same Vail
  listing with an unknown driving time; a second home whose driving time is unknown; a
  listing without an id; a third home that is available 2025-01-21..2025-01-25 only.\<close>

definition window_early :: availability where
  "window_early = \<lparr>avail_id = ''a1'', avail_homeId = ''h1'',
          startDate = ''2025-01-01'', endDate = ''2025-01-12''\<rparr>"

definition window_late :: availability where
  "window_late = \<lparr>avail_id = ''a2'', avail_homeId = ''h1'',
          startDate = ''2025-01-21'', endDate = ''2025-01-25''\<rparr>"


definition example_vail :: raw_listing where
  "example_vail =
     \<lparr>listing_id = Some ''h1'', homeId = Some ''h1'', title = Some ''Cabin'',
      destination = Some ''Colorado'', lat = Some 39.4, lon = Some (-106.6),
      availabilitiesWithoutBookedDates = [window_early, window_late],
      maxGuestsLimit = Some 6, petPreference = Some ''YES'', petHostingDetails = None,
      bedroomsCount = Some 3, bathrooms = Some 2, imageUrl = None,
      resort = ''Vail'', state = Some ''Colorado'', region = ''Rockies'',
      resort_lat = 39.64, resort_lon = -106.37, driving_time_minutes = Some 47\<rparr>"

definition example_aspen :: raw_listing where
  "example_aspen =
     example_vail\<lparr>resort := ''Aspen'', resort_lat := 39.19, resort_lon := -106.82,
                  driving_time_minutes := Some 12\<rparr>"

definition example_unknown :: raw_listing where
  "example_unknown =
     example_vail\<lparr>listing_id := Some ''h2'', homeId := Some ''h2'',
                  driving_time_minutes := None\<rparr>"

definition example_no_id :: raw_listing where
  "example_no_id = example_vail\<lparr>listing_id := None, homeId := None\<rparr>"

definition example_late :: raw_listing where
  "example_late =
     example_vail\<lparr>listing_id := Some ''h3'', homeId := Some ''h3'',
       availabilitiesWithoutBookedDates :=
         [\<lparr>avail_id = ''a3'', avail_homeId = ''h3'',
           startDate = ''2025-01-21'', endDate = ''2025-01-25''\<rparr>]\<rparr>"

definition example_vail_unknown :: raw_listing where
  "example_vail_unknown = example_vail\<lparr>driving_time_minutes := None\<rparr>"

section \<open>Properties of the date partition\<close>

lemma strptime_valid:
  assumes "strptime s = Inr dt"
  shows "valid_date dt"
  using assms
  by (induction s rule: strptime.induct)
    (auto simp: datetime_new_def split: if_splits list.splits)

lemma days_in_month_pos: "1 \<le> days_in_month y m"
  by (simp add: days_in_month_def)

lemma add_one_month_ok:
  assumes "valid_date c" "fst c < 9999"
  shows "\<exists>n. add_one_month c = Inr n \<and> c < n \<and> valid_date n"
proof -
  obtain y m d where c: "c = (y, m, d)" by (cases c)
  from assms c have b: "1 \<le> y" "y < 9999" "1 \<le> m" "m \<le> 12" "1 \<le> d"
    by (auto simp: valid_date_def)
  show ?thesis
  proof (cases "m = 12")
    case True
    with b c days_in_month_pos[of "y + 1" 1] show ?thesis
      by (auto simp: add_one_month_def datetime_new_def valid_date_def Let_def)
  next
    case False
    with b c days_in_month_pos[of y "m + 1"] show ?thesis
      by (auto simp: add_one_month_def datetime_new_def valid_date_def Let_def)
  qed
qed

lemma monthly_windows_chained:
  assumes "valid_date c" "valid_date e" "c \<le> e" "fst e < 9999"
  shows "\<exists>ws. monthly_windows c e = Inr ws \<and> chained c e ws"
  using assms
proof (induction c e rule: monthly_windows.induct)
  case (1 c e)
  show ?case
  proof (cases "c < e")
    case False
    with "1.prems" have "c = e" by simp
    then show ?thesis by (simp add: monthly_windows.simps[of e e])
  next
    case True
    then have "fst c \<le> fst e" by (cases c; cases e) auto
    with "1.prems" have "fst c < 9999" by simp
    with "1.prems" obtain n where n: "add_one_month c = Inr n" "c < n" "valid_date n"
      using add_one_month_ok by blast
    let ?t = "min n e"
    have vt: "valid_date ?t" using n "1.prems" by (simp add: min_def)
    have "\<exists>ws. monthly_windows ?t e = Inr ws \<and> chained ?t e ws"
      using "1.IH"[OF True n(1) vt "1.prems"(2)] "1.prems"(4) by simp
    then obtain ws where ws: "monthly_windows ?t e = Inr ws" "chained ?t e ws" by blast
    have lt: "c < ?t" using n True by simp
    have "monthly_windows c e = Inr ((c, ?t) # ws)"
      using True n ws by (simp add: monthly_windows.simps[of c e])
    moreover have "chained c e ((c, ?t) # ws)"
      using lt n ws by simp
    ultimately show ?thesis by blast
  qed
qed

lemma chained_nonempty: "chained c e ws \<Longrightarrow> c < e \<Longrightarrow> ws \<noteq> []"
  by (cases ws) auto

lemma chained_hd: "chained c e ws \<Longrightarrow> ws \<noteq> [] \<Longrightarrow> fst (hd ws) = c"
  by (cases ws) auto

lemma chained_last: "chained c e ws \<Longrightarrow> ws \<noteq> [] \<Longrightarrow> snd (last ws) = e"
proof (induction ws arbitrary: c)
  case Nil
  then show ?case by simp
next
  case (Cons w ws)
  then show ?case by (cases ws) auto
qed

lemma chained_contiguous:
  "chained c e ws \<Longrightarrow> Suc i < length ws \<Longrightarrow> fst (ws ! Suc i) = snd (ws ! i)"
proof (induction ws arbitrary: c i)
  case Nil
  then show ?case by simp
next
  case (Cons w ws)
  show ?case
  proof (cases i)
    case 0
    with Cons.prems show ?thesis by (cases ws) auto
  next
    case (Suc k)
    with Cons.prems Cons.IH[of "snd w" k] show ?thesis by simp
  qed
qed

lemma chained_member:
  "chained c e ws \<Longrightarrow> w \<in> set ws \<Longrightarrow>
     c \<le> fst w \<and> fst w < snd w \<and> snd w \<le> e \<and>
     (\<exists>n. add_one_month (fst w) = Inr n \<and> snd w = min n e)"
proof (induction ws arbitrary: c)
  case Nil
  then show ?case by simp
next
  case (Cons v ws)
  show ?case
  proof (cases "w = v")
    case True
    with Cons.prems show ?thesis by (auto split: sum.splits)
  next
    case False
    with Cons.prems have "chained (snd v) e ws" "w \<in> set ws" "c < snd v" by auto
    with Cons.IH[of "snd v"] show ?thesis by auto
  qed
qed

lemma chained_ordered:
  "chained c e ws \<Longrightarrow> i < j \<Longrightarrow> j < length ws \<Longrightarrow> snd (ws ! i) \<le> fst (ws ! j)"
proof (induction ws arbitrary: c i j)
  case Nil
  then show ?case by simp
next
  case (Cons v ws)
  from Cons.prems obtain k where j: "j = Suc k" by (cases j) auto
  with Cons.prems have k: "k < length ws" by simp
  from Cons.prems have ch: "chained (snd v) e ws" by simp
  show ?case
  proof (cases i)
    case 0
    from chained_member[OF ch nth_mem[OF k]] have "snd v \<le> fst (ws ! k)" by simp
    with 0 j show ?thesis by simp
  next
    case (Suc i')
    with Cons.prems j Cons.IH[OF ch, of i' k] show ?thesis by simp
  qed
qed

lemma chained_cover:
  "chained c e ws \<Longrightarrow> ws \<noteq> [] \<Longrightarrow> c \<le> d \<Longrightarrow> d \<le> e \<Longrightarrow>
     \<exists>w\<in>set ws. fst w \<le> d \<and> d \<le> snd w"
proof (induction ws arbitrary: c)
  case Nil
  then show ?case by simp
next
  case (Cons v ws)
  show ?case
  proof (cases "d \<le> snd v")
    case True
    with Cons.prems show ?thesis by auto
  next
    case False
    from Cons.prems have ch: "chained (snd v) e ws" by simp
    have "ws \<noteq> []"
    proof
      assume "ws = []"
      with ch have "snd v = e" by simp
      with False Cons.prems show False by simp
    qed
    with Cons.IH[OF ch] False Cons.prems show ?thesis by auto
  qed
qed

text \<open>
  C4 (as amended).  For date strings that parse to \<open>a < b\<close> with the year of \<open>b\<close>
  below 9999, \<open>make_monthly_date_ranges\<close> returns the ISO rendering of a non-empty list of
  windows: the first starts at \<open>a\<close>, the last ends at \<open>b\<close>, each window starts where the
  previous one ended, an earlier window ends no later than a later one starts, every
  window is non-empty, lies inside the range and ends at its start plus one calendar
  month or at \<open>b\<close>, whichever is first, and every date of the range lies in a window.
\<close>

theorem make_monthly_date_ranges_partition:
  assumes "strptime start_date = Inr a" and "strptime end_date = Inr b"
    and "a < b" and "fst b < 9999"
  shows "\<exists>ws. monthly_windows a b = Inr ws
      \<and> make_monthly_date_ranges start_date end_date = Inr (map to_iso_date_range ws)
      \<and> ws \<noteq> [] \<and> fst (hd ws) = a \<and> snd (last ws) = b
      \<and> (\<forall>i. Suc i < length ws \<longrightarrow> fst (ws ! Suc i) = snd (ws ! i))
      \<and> (\<forall>i j. i < j \<and> j < length ws \<longrightarrow> snd (ws ! i) \<le> fst (ws ! j))
      \<and> (\<forall>w\<in>set ws. fst w < snd w \<and> a \<le> fst w \<and> snd w \<le> b
            \<and> (\<exists>n. add_one_month (fst w) = Inr n \<and> snd w = min n b))
      \<and> (\<forall>d. a \<le> d \<and> d \<le> b \<longrightarrow> (\<exists>w\<in>set ws. fst w \<le> d \<and> d \<le> snd w))"
proof -
  have va: "valid_date a" and vb: "valid_date b"
    using assms(1,2) by (auto dest: strptime_valid)
  from assms(3) have "a \<le> b" by simp
  from monthly_windows_chained[OF va vb this assms(4)]
  obtain ws where ws: "monthly_windows a b = Inr ws" and ch: "chained a b ws" by blast
  have ne: "ws \<noteq> []" using ch assms(3) by (rule chained_nonempty)
  have "make_monthly_date_ranges start_date end_date = Inr (map to_iso_date_range ws)"
    using assms(1,2) ws by (simp add: make_monthly_date_ranges_def)
  moreover have "fst (hd ws) = a" using ch ne by (rule chained_hd)
  moreover have "snd (last ws) = b" using ch ne by (rule chained_last)
  moreover have "\<forall>i. Suc i < length ws \<longrightarrow> fst (ws ! Suc i) = snd (ws ! i)"
    using chained_contiguous[OF ch] by blast
  moreover have "\<forall>i j. i < j \<and> j < length ws \<longrightarrow> snd (ws ! i) \<le> fst (ws ! j)"
    using chained_ordered[OF ch] by blast
  moreover have "\<forall>w\<in>set ws. fst w < snd w \<and> a \<le> fst w \<and> snd w \<le> b
            \<and> (\<exists>n. add_one_month (fst w) = Inr n \<and> snd w = min n b)"
    using chained_member[OF ch] by blast
  moreover have "\<forall>d. a \<le> d \<and> d \<le> b \<longrightarrow> (\<exists>w\<in>set ws. fst w \<le> d \<and> d \<le> snd w)"
    using chained_cover[OF ch ne] by blast
  ultimately show ?thesis using ws ne by blast
qed

theorem make_monthly_date_ranges_partition_witness:
  "strptime ''2025-01-31'' = Inr (2025, 1, 31) \<and> strptime ''2025-04-10'' = Inr (2025, 4, 10)
   \<and> ((2025, 1, 31) :: date) < (2025, 4, 10)
   \<and> (\<exists>ws. make_monthly_date_ranges ''2025-01-31'' ''2025-04-10'' = Inr (map to_iso_date_range ws)
        \<and> ws \<noteq> [] \<and> fst (hd ws) = (2025, 1, 31) \<and> snd (last ws) = (2025, 4, 10))"
proof -
  have s: "strptime ''2025-01-31'' = Inr (2025, 1, 31)" by (simp add: date_eval)
  have e: "strptime ''2025-04-10'' = Inr (2025, 4, 10)" by (simp add: date_eval)
  have lt: "((2025, 1, 31) :: date) < (2025, 4, 10)" by simp
  have y: "fst ((2025, 4, 10) :: date) < 9999" by simp
  from make_monthly_date_ranges_partition[OF s e lt y] s e lt show ?thesis by blast
qed

text \<open>C4, the claim as stated: it allows \<open>startDate = endDate\<close>, and there the loop
  does not run, so there is no window at all, hence no final window ending at endDate
  and nothing that covers the range.\<close>

theorem make_monthly_date_ranges_equal_dates_counterexample:
  "strptime ''2025-01-10'' = Inr (2025, 1, 10) \<and>
   make_monthly_date_ranges ''2025-01-10'' ''2025-01-10'' = Inr []"
  by (simp add: date_eval make_monthly_date_ranges_def monthly_windows.simps[of "(2025, 1, 10)"])

text \<open>A second limit of the partition: the month arithmetic leaves the calendar in
  December 9999, and the ValueError of \<open>datetime.replace\<close> ends the function.\<close>

lemma make_monthly_date_ranges_year_9999:
  "make_monthly_date_ranges ''9999-12-01'' ''9999-12-31'' = Inl ValueError"
  by (simp add: date_eval make_monthly_date_ranges_def add_one_month_def
      monthly_windows.simps[of "(9999, 12, 1)"])

text \<open>
  C4, equal dates.  For date strings that parse to a start date that is not before the
  end date (equal to it, or after it), \<open>make_monthly_date_ranges\<close> returns the empty
  list: the loop does not run.
\<close>

lemma make_monthly_date_ranges_reversed:
  assumes "strptime start_date = Inr a" and "strptime end_date = Inr b" and "b \<le> a"
  shows "make_monthly_date_ranges start_date end_date = Inr []"
  using assms leD[OF assms(3)]
  by (simp add: make_monthly_date_ranges_def monthly_windows.simps[of a b])

lemma make_monthly_date_ranges_reversed_witness:
  "strptime ''2025-01-20'' = Inr (2025, 1, 20) \<and> strptime ''2025-01-10'' = Inr (2025, 1, 10)
   \<and> ((2025, 1, 10) :: date) \<le> (2025, 1, 20)
   \<and> make_monthly_date_ranges ''2025-01-20'' ''2025-01-10'' = Inr []"
proof -
  have s: "strptime ''2025-01-20'' = Inr (2025, 1, 20)" by (simp add: date_eval)
  have e: "strptime ''2025-01-10'' = Inr (2025, 1, 10)" by (simp add: date_eval)
  have le: "((2025, 1, 10) :: date) \<le> (2025, 1, 20)" by simp
  from make_monthly_date_ranges_reversed[OF s e le] s e le show ?thesis by blast
qed

text \<open>
  C5 (as amended).  For date strings that parse to a start date after the end date, the
  date partitioning raises no error in either mode: \<open>make_monthly_date_ranges\<close> returns
  the empty list, which is the partition of the flexible mode, and every other mode
  yields the single range from the start date to the end date, rendered as given, its
  end before its start.
\<close>

theorem date_partition_reversed_no_error:
  assumes "strptime start_date = Inr a" and "strptime end_date = Inr b" and "b < a"
  shows "make_monthly_date_ranges start_date end_date = Inr []
     \<and> formatted_date_range date_type start_date end_date
         = Inr (if date_type = ''flexible'' then [] else [[strftime_iso a, strftime_iso b]])"
proof -
  from assms(3) have "\<not> a < b" by simp
  then have w: "monthly_windows a b = Inr []"
    by (simp add: monthly_windows.simps[of a b])
  have m: "make_monthly_date_ranges start_date end_date = Inr []"
    using assms(1,2) w by (simp add: make_monthly_date_ranges_def)
  have x: "to_iso_date_range_of_strings start_date end_date
      = Inr [strftime_iso a, strftime_iso b]"
    using assms(1,2)
    by (simp add: to_iso_date_range_of_strings_def ensure_dt_def to_iso_date_range_def)
  show ?thesis using m x by (simp add: formatted_date_range_def)
qed

theorem date_partition_reversed_no_error_witness:
  "strptime ''2025-01-20'' = Inr (2025, 1, 20) \<and> strptime ''2025-01-10'' = Inr (2025, 1, 10)
   \<and> ((2025, 1, 10) :: date) < (2025, 1, 20)
   \<and> formatted_date_range ''flexible'' ''2025-01-20'' ''2025-01-10'' = Inr []
   \<and> formatted_date_range ''exact'' ''2025-01-20'' ''2025-01-10''
       = Inr [[''2025-01-20T00:00:00.000Z'', ''2025-01-10T00:00:00.000Z'']]"
proof -
  have s: "strptime ''2025-01-20'' = Inr (2025, 1, 20)" by (simp add: date_eval)
  have e: "strptime ''2025-01-10'' = Inr (2025, 1, 10)" by (simp add: date_eval)
  have lt: "((2025, 1, 10) :: date) < (2025, 1, 20)" by simp
  have i1: "strftime_iso (2025, 1, 20) = ''2025-01-20T00:00:00.000Z''"
    by (simp add: strftime_iso_def digit_char_def)
  have i2: "strftime_iso (2025, 1, 10) = ''2025-01-10T00:00:00.000Z''"
    by (simp add: strftime_iso_def digit_char_def)
  have f: "formatted_date_range ''flexible'' ''2025-01-20'' ''2025-01-10'' = Inr []"
    using date_partition_reversed_no_error[OF s e lt, of "''flexible''"] by simp
  have x: "formatted_date_range ''exact'' ''2025-01-20'' ''2025-01-10''
       = Inr [[''2025-01-20T00:00:00.000Z'', ''2025-01-10T00:00:00.000Z'']]"
    using date_partition_reversed_no_error[OF s e lt, of "''exact''"]
    by (simp only: i1 i2) simp
  show ?thesis using s e lt f x by (intro conjI)
qed

text \<open>C5, the claim as stated: a start date after the end date is no error; the
  function returns the empty list.\<close>

theorem make_monthly_date_ranges_no_invalid_range_counterexample:
  "strptime ''2025-02-01'' = Inr (2025, 2, 1) \<and> strptime ''2025-01-01'' = Inr (2025, 1, 1)
   \<and> make_monthly_date_ranges ''2025-02-01'' ''2025-01-01'' = Inr []"
  by (simp add: date_eval make_monthly_date_ranges_def monthly_windows.simps[of "(2025, 2, 1)"])

section \<open>Properties of make_polygon\<close>

lemma polygon_loop_vertices:
  assumes "cos (radians clat) \<noteq> 0"
  shows "polygon_loop clat clon r 69.0 (69.172 * cos (radians clat)) angles
           = Inr (map (spec_vertex clat clon r) angles)"
  using assms
  by (induction angles) (simp_all add: polygon_point_def truediv_def spec_vertex_def Let_def)

text \<open>
  C6.  Where the real-number model has no division by zero (\<open>cos (radians lat) \<noteq> 0\<close>,
  that is away from the poles), \<open>make_polygon\<close> returns exactly 8 vertices, the vertices
  of the specification for the angles 90, 45, 0, 315, 270, 225, 180, 135 in this order;
  for a radius of 0 all 8 vertices are the centre.
\<close>

theorem make_polygon_octagon:
  assumes "cos (radians clat) \<noteq> 0"
  shows "\<exists>polygon. make_polygon clat clon radiusMiles = Inr polygon
      \<and> length polygon = 8
      \<and> polygon = map (spec_vertex clat clon radiusMiles) [90, 45, 0, 315, 270, 225, 180, 135]
      \<and> (radiusMiles = 0 \<longrightarrow> polygon = replicate 8 \<lparr>pt_lat = clat, pt_lon = clon\<rparr>)"
proof -
  have eq: "make_polygon clat clon radiusMiles
      = Inr (map (spec_vertex clat clon radiusMiles) [90, 45, 0, 315, 270, 225, 180, 135])"
    unfolding make_polygon_def Let_def directions_deg_def
    by (rule polygon_loop_vertices[OF assms])
  have "spec_vertex clat clon 0 a = \<lparr>pt_lat = clat, pt_lon = clon\<rparr>" for a
    by (simp add: spec_vertex_def)
  then have "map (spec_vertex clat clon 0) [90, 45, 0, 315, 270, 225, 180, 135]
      = replicate 8 \<lparr>pt_lat = clat, pt_lon = clon\<rparr>"
    by (simp add: numeral_eq_Suc)
  with eq show ?thesis by simp
qed

theorem make_polygon_octagon_witness:
  "cos (radians 0) \<noteq> 0
   \<and> (\<exists>polygon. make_polygon 0 (-106.82) 0 = Inr polygon \<and> length polygon = 8
         \<and> polygon = replicate 8 \<lparr>pt_lat = 0, pt_lon = -106.82\<rparr>)"
proof -
  have c: "cos (radians 0) \<noteq> 0" by (simp add: radians_def)
  from make_polygon_octagon[OF c, of "-106.82" 0] c show ?thesis by auto
qed

section \<open>Properties of get_driving_time\<close>

lemma route_minutes_no_route:
  "route_minutes (JObj [(''routes'', JArr [])]) = Inl IndexError"
  by (simp add: route_minutes_def)

text \<open>
  C9.  \<open>get_driving_time\<close> never raises: it returns None or a number of minutes.  It
  returns None without calling the provider when the API key is missing or empty;
  otherwise it calls the provider exactly once, and returns None when the call raises,
  when the response is not JSON, and when \<open>routes[0].summary.duration / 60\<close> cannot be
  computed from it (a key is missing, there is no route, a value has the wrong type);
  it returns the minutes when it can.
\<close>

theorem get_driving_time_never_raises:
  "(\<exists>r. fst (get_driving_time key post calls rlat rlon hlat hlon) = Inr r)
   \<and> snd (get_driving_time key post calls rlat rlon hlat hlon) \<le> calls + 1
   \<and> (key = None \<or> key = Some [] \<longrightarrow>
        get_driving_time key post calls rlat rlon hlat hlon = (Inr None, calls))
   \<and> (\<forall>k. key = Some k \<and> k \<noteq> [] \<longrightarrow>
        snd (get_driving_time key post calls rlat rlon hlat hlon) = calls + 1
        \<and> (\<forall>e. post k [[hlon, hlat], [rlon, rlat]] = Inl e \<longrightarrow>
              fst (get_driving_time key post calls rlat rlon hlat hlon) = Inr None)
        \<and> (\<forall>e. post k [[hlon, hlat], [rlon, rlat]] = Inr (Inl e) \<longrightarrow>
              fst (get_driving_time key post calls rlat rlon hlat hlon) = Inr None)
        \<and> (\<forall>j e. post k [[hlon, hlat], [rlon, rlat]] = Inr (Inr j) \<and> route_minutes j = Inl e \<longrightarrow>
              fst (get_driving_time key post calls rlat rlon hlat hlon) = Inr None)
        \<and> (\<forall>j t. post k [[hlon, hlat], [rlon, rlat]] = Inr (Inr j) \<and> route_minutes j = Inr t \<longrightarrow>
              fst (get_driving_time key post calls rlat rlon hlat hlon) = Inr (Some t)))"
proof -
  have exc: "is_Exception e" for e by (cases e) simp_all
  have t1: "\<exists>r. try_except_Exception body = Inr r" for body
    by (cases body) (simp_all add: try_except_Exception_def exc)
  have t2: "try_except_Exception (Inl e) = Inr None" for e
    by (simp add: try_except_Exception_def exc)
  have t3: "try_except_Exception (Inr t) = Inr (Some t)" for t
    by (simp add: try_except_Exception_def)
  show ?thesis
  proof (cases key)
    case None
    then show ?thesis by (simp add: get_driving_time_def)
  next
    case (Some k)
    show ?thesis
    proof (cases "k = []")
      case True
      with Some show ?thesis by (simp add: get_driving_time_def)
    next
      case False
      with Some show ?thesis
        using t1 by (auto simp: get_driving_time_def Let_def t2 t3 split: sum.splits)
    qed
  qed
qed

theorem get_driving_time_never_raises_witness:
  "route_minutes (JObj [(''routes'', JArr [])]) = Inl IndexError
   \<and> get_driving_time (Some ''key'') (\<lambda>k c. Inr (Inr (JObj [(''routes'', JArr [])]))) 0
        39.19 (-106.82) 39.5 (-106.3) = (Inr None, 1)"
proof -
  have r: "route_minutes (JObj [(''routes'', JArr [])]) = Inl IndexError"
    by (simp add: route_minutes_def)
  from get_driving_time_never_raises[of "Some ''key''"
      "\<lambda>k c. Inr (Inr (JObj [(''routes'', JArr [])]))" 0 "39.19" "-106.82" "39.5" "-106.3"] r
  show ?thesis by (auto simp: prod_eq_iff)
qed

section \<open>Properties of resort_map_multiple\<close>

lemma min_ok_single: "min_ok t [t]"
  by (auto simp: min_ok_def)

lemma min_ok_snoc:
  assumes "min_ok m ts"
  shows "min_ok (case t of None \<Rightarrow> m
                 | Some x \<Rightarrow> (case m of None \<Rightarrow> Some x
                              | Some c \<Rightarrow> if x < c then Some x else Some c)) (ts @ [t])"
proof (cases t)
  case None
  with assms show ?thesis by (auto simp: min_ok_def)
next
  case (Some x)
  show ?thesis
  proof (cases m)
    case None
    with assms have "\<forall>u\<in>set ts. u = None" by (simp add: min_ok_def)
    then have "\<And>y. Some y \<in> set ts \<Longrightarrow> False" by auto
    with Some None show ?thesis by (auto simp: min_ok_def)
  next
    case (Some c)
    with assms have c: "Some c \<in> set ts" "\<And>y. Some y \<in> set ts \<Longrightarrow> c \<le> y"
      by (auto simp: min_ok_def)
    with \<open>t = Some x\<close> Some show ?thesis
      by (fastforce simp: min_ok_def)
  qed
qed

lemma dedup_inv_empty: "dedup_inv [] []"
  by (simp add: dedup_inv_def listings_of_def)

lemma listings_of_snoc:
  "listings_of k (rs @ [r]) = listings_of k rs @ (if listing_id r = Some k then [r] else [])"
  by (simp add: listings_of_def)

lemma dedup_step_falsy:
  "\<not> truthy_id r \<Longrightarrow> dedup_step d r = d"
  by (auto simp: truthy_id_def dedup_step_def split: option.splits)

lemma dedup_inv_step:
  assumes inv: "dedup_inv rs d"
  shows "dedup_inv (rs @ [r]) (dedup_step d r)"
proof (cases "truthy_id r")
  case False
  then have same: "dedup_step d r = d" by (rule dedup_step_falsy)
  have "listings_of k (rs @ [r]) = listings_of k rs" if "k \<noteq> []" for k
    using False that by (auto simp: listings_of_snoc truthy_id_def)
  with inv show ?thesis unfolding same dedup_inv_def by metis
next
  case True
  then obtain hid where hid: "listing_id r = Some hid" "hid \<noteq> []"
    by (auto simp: truthy_id_def)
  have other: "listings_of k (rs @ [r]) = listings_of k rs" if "k \<noteq> hid" for k
    using that hid by (simp add: listings_of_snoc)
  have this_one: "listings_of hid (rs @ [r]) = listings_of hid rs @ [r]"
    using hid by (simp add: listings_of_snoc)
  from inv have dist: "distinct (map fst d)" by (simp add: dedup_inv_def)
  show ?thesis
  proof (cases "map_of d hid")
    case None
    let ?h = "\<lparr>base = r, resorts = [resort_entry_of r], min_driving_time = driving_time_minutes r\<rparr>"
    have step: "dedup_step d r = AList.update hid ?h d"
      using hid None by (simp add: dedup_step_def)
    from inv None hid have empty: "listings_of hid rs = []" by (auto simp: dedup_inv_def)
    have m: "map_of (dedup_step d r) = (map_of d)(hid \<mapsto> ?h)"
      unfolding step by (rule update_conv')
    have d': "distinct (map fst (dedup_step d r))"
      unfolding step using dist by (rule distinct_update)
    show ?thesis
      unfolding dedup_inv_def
    proof (intro conjI allI impI)
      show "distinct (map fst (dedup_step d r))" by (rule d')
    next
      fix k assume "map_of (dedup_step d r) k = None"
      then have "k \<noteq> hid" "map_of d k = None" by (auto simp: m split: if_splits)
      with inv other show "k = [] \<or> listings_of k (rs @ [r]) = []"
        by (auto simp: dedup_inv_def)
    next
      fix k h assume kh: "map_of (dedup_step d r) k = Some h"
      show "k \<noteq> []"
        using kh inv hid by (auto simp: m dedup_inv_def split: if_splits)
      show "\<exists>first rest. listings_of k (rs @ [r]) = first # rest \<and> base h = first \<and>
              resorts h = map resort_entry_of (first # rest)"
      proof (cases "k = hid")
        case True
        with kh have "h = ?h" by (simp add: m)
        with True this_one empty show ?thesis by simp
      next
        case False
        with kh have "map_of d k = Some h" by (simp add: m)
        with inv other[OF False] show ?thesis by (simp add: dedup_inv_def)
      qed
      show "min_ok (min_driving_time h) (map driving_time_minutes (listings_of k (rs @ [r])))"
      proof (cases "k = hid")
        case True
        with kh have "h = ?h" by (simp add: m)
        with True this_one empty show ?thesis by (simp add: min_ok_single)
      next
        case False
        with kh have "map_of d k = Some h" by (simp add: m)
        with inv other[OF False] show ?thesis by (simp add: dedup_inv_def)
      qed
    qed
  next
    case (Some home)
    let ?m = "(case driving_time_minutes r of None \<Rightarrow> min_driving_time home
               | Some t \<Rightarrow> (case min_driving_time home of None \<Rightarrow> Some t
                    | Some current_min \<Rightarrow> if t < current_min then Some t else Some current_min))"
    let ?h = "home\<lparr>resorts := resorts home @ [resort_entry_of r], min_driving_time := ?m\<rparr>"
    have step: "dedup_step d r = AList.update hid ?h d"
      using hid Some by (simp add: dedup_step_def)
    have m: "map_of (dedup_step d r) = (map_of d)(hid \<mapsto> ?h)"
      unfolding step by (rule update_conv')
    have d': "distinct (map fst (dedup_step d r))"
      unfolding step using dist by (rule distinct_update)
    from inv Some obtain first rest where fr: "listings_of hid rs = first # rest"
      "base home = first" "resorts home = map resort_entry_of (first # rest)"
      unfolding dedup_inv_def by blast
    from inv Some have mo: "min_ok (min_driving_time home)
        (map driving_time_minutes (listings_of hid rs))"
      unfolding dedup_inv_def by blast
    show ?thesis
      unfolding dedup_inv_def
    proof (intro conjI allI impI)
      show "distinct (map fst (dedup_step d r))" by (rule d')
    next
      fix k assume "map_of (dedup_step d r) k = None"
      then have "k \<noteq> hid" "map_of d k = None" by (auto simp: m split: if_splits)
      with inv other show "k = [] \<or> listings_of k (rs @ [r]) = []"
        by (auto simp: dedup_inv_def)
    next
      fix k h assume kh: "map_of (dedup_step d r) k = Some h"
      show "k \<noteq> []"
        using kh inv hid by (auto simp: m dedup_inv_def split: if_splits)
      show "\<exists>first rest. listings_of k (rs @ [r]) = first # rest \<and> base h = first \<and>
              resorts h = map resort_entry_of (first # rest)"
      proof (cases "k = hid")
        case True
        with kh have "h = ?h" by (simp add: m)
        with True this_one fr show ?thesis by simp
      next
        case False
        with kh have "map_of d k = Some h" by (simp add: m)
        with inv other[OF False] show ?thesis by (simp add: dedup_inv_def)
      qed
      show "min_ok (min_driving_time h) (map driving_time_minutes (listings_of k (rs @ [r])))"
      proof (cases "k = hid")
        case True
        with kh have h: "h = ?h" by (simp add: m)
        have "min_ok ?m (map driving_time_minutes (listings_of hid rs) @ [driving_time_minutes r])"
          using mo by (rule min_ok_snoc)
        with True this_one h show ?thesis by simp
      next
        case False
        with kh have "map_of d k = Some h" by (simp add: m)
        with inv other[OF False] show ?thesis by (simp add: dedup_inv_def)
      qed
    qed
  qed
qed

lemma dedup_inv_foldl: "dedup_inv rs (foldl dedup_step [] rs)"
proof (induction rs rule: rev_induct)
  case Nil
  show ?case by (simp add: dedup_inv_empty)
next
  case (snoc r rs)
  then show ?case by (simp add: dedup_inv_step)
qed




lemma inf_key_le: "inf_key a \<le> inf_key b \<longleftrightarrow> time_le a b"
  by (cases a; cases b) (simp_all add: inf_key_def)


lemma resort_map_multiple_members:
  "h \<in> set (resort_map_multiple rs) \<longleftrightarrow>
     (\<exists>k h0. map_of (foldl dedup_step [] rs) k = Some h0 \<and> h = sort_resorts h0)"
proof -
  have dist: "distinct (map fst (foldl dedup_step [] rs))"
    using dedup_inv_foldl[of rs] by (simp add: dedup_inv_def)
  have "h \<in> set (resort_map_multiple rs) \<longleftrightarrow>
      (\<exists>p\<in>set (foldl dedup_step [] rs). h = sort_resorts (snd p))"
    by (auto simp: resort_map_multiple_def Let_def)
  also have "\<dots> \<longleftrightarrow> (\<exists>k h0. map_of (foldl dedup_step [] rs) k = Some h0 \<and> h = sort_resorts h0)"
  proof
    assume "\<exists>p\<in>set (foldl dedup_step [] rs). h = sort_resorts (snd p)"
    then obtain k h0 where "(k, h0) \<in> set (foldl dedup_step [] rs)" "h = sort_resorts h0"
      by auto
    with dist show "\<exists>k h0. map_of (foldl dedup_step [] rs) k = Some h0 \<and> h = sort_resorts h0"
      by (auto simp: map_of_eq_Some_iff)
  next
    assume "\<exists>k h0. map_of (foldl dedup_step [] rs) k = Some h0 \<and> h = sort_resorts h0"
    then obtain k h0 where "map_of (foldl dedup_step [] rs) k = Some h0" "h = sort_resorts h0"
      by auto
    with dist have "(k, h0) \<in> set (foldl dedup_step [] rs)" by (simp add: map_of_eq_Some_iff)
    with \<open>h = sort_resorts h0\<close> show "\<exists>p\<in>set (foldl dedup_step [] rs). h = sort_resorts (snd p)"
      by force
  qed
  finally show ?thesis .
qed

lemma sort_resorts_fields:
  "base (sort_resorts h) = base h"
  "min_driving_time (sort_resorts h) = min_driving_time h"
  "resorts (sort_resorts h) = sort_key (\<lambda>x. inf_key (entry_driving_time_minutes x)) (resorts h)"
  by (simp_all add: sort_resorts_def)

lemma home_of_member:
  assumes "h \<in> set (resort_map_multiple rs)"
  shows "\<exists>k first rest. k \<noteq> [] \<and> listings_of k rs = first # rest \<and> base h = first
           \<and> resorts h = sort_key (\<lambda>x. inf_key (entry_driving_time_minutes x))
                            (map resort_entry_of (first # rest))
           \<and> min_ok (min_driving_time h) (map driving_time_minutes (first # rest))"
proof -
  from assms obtain k h0 where kh: "map_of (foldl dedup_step [] rs) k = Some h0"
    and h: "h = sort_resorts h0"
    by (auto simp: resort_map_multiple_members)
  from dedup_inv_foldl[of rs] kh obtain first rest where
    "k \<noteq> []" "listings_of k rs = first # rest" "base h0 = first"
    "resorts h0 = map resort_entry_of (first # rest)"
    "min_ok (min_driving_time h0) (map driving_time_minutes (listings_of k rs))"
    unfolding dedup_inv_def by blast
  with h show ?thesis by (auto simp: sort_resorts_fields)
qed

lemma listings_of_id:
  "listings_of k rs = first # rest \<Longrightarrow> listing_id first = Some k \<and> first \<in> set rs"
proof -
  assume "listings_of k rs = first # rest"
  then have "first \<in> set (listings_of k rs)" by simp
  then show ?thesis by (simp add: listings_of_def)
qed

lemma entry_times_of_listings:
  "entry_driving_time_minutes ` set (sort_key (\<lambda>x. inf_key (entry_driving_time_minutes x))
        (map resort_entry_of ls)) = set (map driving_time_minutes ls)"
proof -
  have "entry_driving_time_minutes (resort_entry_of r) = driving_time_minutes r" for r
    by (simp add: resort_entry_of_def)
  then show ?thesis by (simp add: image_image del: sort_key_simps)
qed

lemma foldl_dedup_step_filter:
  "foldl dedup_step d (filter truthy_id rs) = foldl dedup_step d rs"
  by (induction rs arbitrary: d) (simp_all add: dedup_step_falsy)

subsection \<open>The examples, evaluated\<close>

lemma example_fields:
  "listing_id example_vail = Some ''h1''" "listing_id example_aspen = Some ''h1''"
  "homeId example_vail = Some ''h1''" "homeId example_aspen = Some ''h1''"
  "driving_time_minutes example_vail = Some 47" "driving_time_minutes example_aspen = Some 12"
  "resort_entry_of example_vail = \<lparr>entry_resort = ''Vail'', entry_state = Some ''Colorado'',
      entry_region = ''Rockies'', entry_driving_time_minutes = Some 47\<rparr>"
  "resort_entry_of example_aspen = \<lparr>entry_resort = ''Aspen'', entry_state = Some ''Colorado'',
      entry_region = ''Rockies'', entry_driving_time_minutes = Some 12\<rparr>"
  by (simp_all add: example_vail_def example_aspen_def resort_entry_of_def)


lemma example_vail_first:
  "resort_map_multiple [example_vail, example_aspen] =
     [\<lparr>base = example_vail,
       resorts = [resort_entry_of example_aspen, resort_entry_of example_vail],
       min_driving_time = Some 12\<rparr>]"
  by (simp add: resort_map_multiple_def dedup_step_def sort_resorts_def inf_key_def
      example_fields)

lemma example_fields2:
  "listing_id example_unknown = Some ''h2''" "homeId example_unknown = Some ''h2''"
  "driving_time_minutes example_unknown = None"
  "listing_id example_no_id = None"
  "resort_entry_of example_unknown = \<lparr>entry_resort = ''Vail'', entry_state = Some ''Colorado'',
      entry_region = ''Rockies'', entry_driving_time_minutes = None\<rparr>"
  by (simp_all add: example_vail_def example_unknown_def example_no_id_def resort_entry_of_def)

lemma example_unknown_first:
  "resort_map_multiple [example_unknown, example_no_id, example_vail] =
     [\<lparr>base = example_vail, resorts = [resort_entry_of example_vail],
       min_driving_time = Some 47\<rparr>,
      \<lparr>base = example_unknown, resorts = [resort_entry_of example_unknown],
       min_driving_time = None\<rparr>]"
  by (simp add: resort_map_multiple_def dedup_step_def sort_resorts_def inf_key_def
      example_fields example_fields2)

subsection \<open>The claims\<close>



text \<open>
  C2.  Every home of the output has a non-empty \<open>resorts\<close> list; its
  \<open>min_driving_time\<close> is unknown exactly when the driving time of every entry is unknown,
  and otherwise it is the driving time of one of the entries and at most the known
  driving time of every entry.
\<close>

theorem resort_map_multiple_min_driving_time:
  assumes "h \<in> set (resort_map_multiple results_full)"
  shows "resorts h \<noteq> []
      \<and> (min_driving_time h = None \<longleftrightarrow>
           (\<forall>e\<in>set (resorts h). entry_driving_time_minutes e = None))
      \<and> (\<forall>t. min_driving_time h = Some t \<longrightarrow>
           (\<exists>e\<in>set (resorts h). entry_driving_time_minutes e = Some t)
           \<and> (\<forall>e\<in>set (resorts h). \<forall>u. entry_driving_time_minutes e = Some u \<longrightarrow> t \<le> u))"
proof -
  from home_of_member[OF assms] obtain k first rest where
    r: "resorts h = sort_key (\<lambda>x. inf_key (entry_driving_time_minutes x))
                            (map resort_entry_of (first # rest))"
    and m: "min_ok (min_driving_time h) (map driving_time_minutes (first # rest))"
    by blast
  define ts where "ts = map driving_time_minutes (first # rest)"
  have S: "set ts = entry_driving_time_minutes ` set (resorts h)"
    unfolding ts_def r by (rule entry_times_of_listings[symmetric])
  have "length (resorts h) = Suc (length rest)" unfolding r by (simp del: sort_key_simps)
  then have ne: "resorts h \<noteq> []" by auto
  from m have m1: "min_driving_time h = None \<longleftrightarrow> (\<forall>t\<in>set ts. t = None)"
    and m2: "\<And>x. min_driving_time h = Some x \<Longrightarrow> Some x \<in> set ts"
    and m3: "\<And>x y. min_driving_time h = Some x \<Longrightarrow> Some y \<in> set ts \<Longrightarrow> x \<le> y"
    unfolding min_ok_def ts_def by blast+
  have a: "min_driving_time h = None \<longleftrightarrow>
           (\<forall>e\<in>set (resorts h). entry_driving_time_minutes e = None)"
    unfolding m1 S by auto
  have b: "\<exists>e\<in>set (resorts h). entry_driving_time_minutes e = Some t"
    if "min_driving_time h = Some t" for t
    using m2[OF that] unfolding S by auto
  have c: "t \<le> u" if "min_driving_time h = Some t" "e \<in> set (resorts h)"
    "entry_driving_time_minutes e = Some u" for t e u
  proof -
    from that(2,3) have "Some u \<in> set ts" unfolding S by force
    with m3[OF that(1)] show ?thesis .
  qed
  from ne a b c show ?thesis by blast
qed

theorem resort_map_multiple_min_driving_time_witness:
  "(\<exists>h. h \<in> set (resort_map_multiple [example_vail, example_aspen])
        \<and> map entry_driving_time_minutes (resorts h) = [Some 12, Some 47]
        \<and> min_driving_time h = Some 12)"
proof -
  let ?h = "\<lparr>base = example_vail,
       resorts = [resort_entry_of example_aspen, resort_entry_of example_vail],
       min_driving_time = Some 12\<rparr>"
  have mem: "?h \<in> set (resort_map_multiple [example_vail, example_aspen])"
    by (simp add: example_vail_first)
  from resort_map_multiple_min_driving_time[OF mem] mem show ?thesis
    by (intro exI[of _ ?h]) (simp add: example_fields)
qed

text \<open>
  C3.  The output is sorted ascending by \<open>min_driving_time\<close> and the \<open>resorts\<close> list of
  every home is sorted ascending by driving time, both with unknown as +infinity; hence
  a home whose \<open>min_driving_time\<close> is unknown stands after every home whose time is
  known.
\<close>

theorem resort_map_multiple_sorted:
  "sorted_wrt (\<lambda>h1 h2. time_le (min_driving_time h1) (min_driving_time h2))
      (resort_map_multiple results_full)
   \<and> (\<forall>h\<in>set (resort_map_multiple results_full).
         sorted_wrt (\<lambda>e1 e2. time_le (entry_driving_time_minutes e1)
                                      (entry_driving_time_minutes e2)) (resorts h))
   \<and> (\<forall>i j t. i < length (resort_map_multiple results_full)
         \<and> j < length (resort_map_multiple results_full)
         \<and> min_driving_time (resort_map_multiple results_full ! i) = None
         \<and> min_driving_time (resort_map_multiple results_full ! j) = Some t \<longrightarrow> j < i)"
proof -
  define out where "out = resort_map_multiple results_full"
  have "sorted (map (\<lambda>x. inf_key (min_driving_time x)) out)"
    unfolding out_def resort_map_multiple_def Let_def by (rule sorted_sort_key)
  then have s1: "sorted_wrt (\<lambda>h1 h2. time_le (min_driving_time h1) (min_driving_time h2)) out"
    by (simp only: sorted_map inf_key_le)
  have s2: "sorted_wrt (\<lambda>e1 e2. time_le (entry_driving_time_minutes e1)
                                      (entry_driving_time_minutes e2)) (resorts h)"
    if "h \<in> set out" for h
  proof -
    from that obtain h0 where "h = sort_resorts h0"
      unfolding out_def resort_map_multiple_members by blast
    then have "resorts h = sort_key (\<lambda>x. inf_key (entry_driving_time_minutes x)) (resorts h0)"
      by (simp only: sort_resorts_fields)
    then have "sorted (map (\<lambda>x. inf_key (entry_driving_time_minutes x)) (resorts h))"
      by (simp only: sorted_sort_key)
    then show ?thesis by (simp only: sorted_map inf_key_le)
  qed
  have s3: "j < i" if "i < length out" "j < length out"
    "min_driving_time (out ! i) = None" "min_driving_time (out ! j) = Some t" for i j t
  proof (rule ccontr)
    assume "\<not> j < i"
    then consider "i = j" | "i < j" by linarith
    then show False
    proof cases
      case 1
      with that show False by simp
    next
      case 2
      from sorted_wrt_nth_less[OF s1 2 that(2)] that(3,4) show False by simp
    qed
  qed
  from s1 s2 s3 show ?thesis unfolding out_def by blast
qed

theorem resort_map_multiple_sorted_witness:
  "map min_driving_time (resort_map_multiple [example_unknown, example_no_id, example_vail])
     = [Some 47, None]
   \<and> sorted_wrt (\<lambda>h1 h2. time_le (min_driving_time h1) (min_driving_time h2))
      (resort_map_multiple [example_unknown, example_no_id, example_vail])"
proof -
  have "map min_driving_time (resort_map_multiple [example_unknown, example_no_id, example_vail])
     = [Some 47, None]" by (simp add: example_unknown_first)
  with resort_map_multiple_sorted[of "[example_unknown, example_no_id, example_vail]"]
  show ?thesis by blast
qed

text \<open>
  C10.  The listings whose id is None or empty are dropped: the output is the output for
  the list without them.  Every home of the output has a non-empty id and the base
  record of one of the listings, each of its resort entries comes from a listing with
  that same id, and, the key \<open>homeId\<close> of a listing being a copy of its key \<open>id\<close>
  (lines 385-386), its \<open>homeId\<close> is not empty.
\<close>

theorem resort_map_multiple_drops_missing_ids:
  "resort_map_multiple results_full
     = resort_map_multiple
         (filter (\<lambda>r. listing_id r \<noteq> None \<and> listing_id r \<noteq> Some []) results_full)
   \<and> (\<forall>h\<in>set (resort_map_multiple results_full).
         \<exists>k. k \<noteq> [] \<and> listing_id (base h) = Some k \<and> base h \<in> set results_full
            \<and> (\<forall>e\<in>set (resorts h). \<exists>r\<in>set results_full.
                   listing_id r = Some k \<and> e = resort_entry_of r))
   \<and> ((\<forall>r\<in>set results_full. homeId r = listing_id r) \<longrightarrow>
        (\<forall>h\<in>set (resort_map_multiple results_full). \<exists>k. k \<noteq> [] \<and> homeId (base h) = Some k))"
proof -
  have f: "(\<lambda>r::raw_listing. listing_id r \<noteq> None \<and> listing_id r \<noteq> Some []) = truthy_id"
    by (simp add: truthy_id_def fun_eq_iff)
  have p1: "resort_map_multiple results_full
     = resort_map_multiple
         (filter (\<lambda>r. listing_id r \<noteq> None \<and> listing_id r \<noteq> Some []) results_full)"
    unfolding f resort_map_multiple_def Let_def foldl_dedup_step_filter ..
  have p2: "\<exists>k. k \<noteq> [] \<and> listing_id (base h) = Some k \<and> base h \<in> set results_full
            \<and> (\<forall>e\<in>set (resorts h). \<exists>r\<in>set results_full.
                   listing_id r = Some k \<and> e = resort_entry_of r)"
    if "h \<in> set (resort_map_multiple results_full)" for h
  proof -
    from home_of_member[OF that] obtain k first rest where
      k: "k \<noteq> []" and ls: "listings_of k results_full = first # rest"
      and b: "base h = first"
      and r: "resorts h = sort_key (\<lambda>x. inf_key (entry_driving_time_minutes x))
                            (map resort_entry_of (first # rest))"
      by blast
    from listings_of_id[OF ls] b have id: "listing_id (base h) = Some k"
      and mem: "base h \<in> set results_full" by simp_all
    have "\<exists>r\<in>set results_full. listing_id r = Some k \<and> e = resort_entry_of r"
      if "e \<in> set (resorts h)" for e
    proof -
      from that have "e \<in> resort_entry_of ` set (listings_of k results_full)"
        unfolding r ls by (simp del: sort_key_simps)
      then obtain r' where "r' \<in> set (listings_of k results_full)" "e = resort_entry_of r'"
        by blast
      then show ?thesis unfolding listings_of_def by auto
    qed
    with k id mem show ?thesis by blast
  qed
  have p3: "\<exists>k. k \<noteq> [] \<and> homeId (base h) = Some k"
    if "\<forall>r\<in>set results_full. homeId r = listing_id r"
      "h \<in> set (resort_map_multiple results_full)" for h
  proof -
    from p2[OF that(2)] obtain k where "k \<noteq> []" "listing_id (base h) = Some k"
      "base h \<in> set results_full" by blast
    with that(1) show ?thesis by auto
  qed
  from p1 p2 p3 show ?thesis by blast
qed

theorem resort_map_multiple_drops_missing_ids_witness:
  "listing_id example_no_id = None
   \<and> resort_map_multiple [example_unknown, example_no_id, example_vail]
       = resort_map_multiple [example_unknown, example_vail]
   \<and> map (\<lambda>h. homeId (base h)) (resort_map_multiple [example_unknown, example_no_id, example_vail])
       = [Some ''h1'', Some ''h2'']"
proof -
  have "filter (\<lambda>r. listing_id r \<noteq> None \<and> listing_id r \<noteq> Some [])
          [example_unknown, example_no_id, example_vail] = [example_unknown, example_vail]"
    by (simp add: example_fields example_fields2)
  with resort_map_multiple_drops_missing_ids[of "[example_unknown, example_no_id, example_vail]"]
  have a: "resort_map_multiple [example_unknown, example_no_id, example_vail]
       = resort_map_multiple [example_unknown, example_vail]" by simp
  have b: "map (\<lambda>h. homeId (base h))
        (resort_map_multiple [example_unknown, example_no_id, example_vail])
       = [Some ''h1'', Some ''h2'']"
    by (simp add: example_unknown_first example_fields example_fields2)
  have c: "listing_id example_no_id = None" by (simp add: example_fields2)
  from a b c show ?thesis by blast
qed

section \<open>Properties of search\<close>

lemma matching_availabilities_filter:
  assumes "\<forall>a\<in>set avs. (\<exists>x. strptime (startDate a) = Inr x) \<and> (\<exists>y. strptime (endDate a) = Inr y)"
  shows "matching_availabilities s e avs = Inr (filter (avail_overlaps s e) avs)"
  using assms
proof (induction avs)
  case Nil
  show ?case by simp
next
  case (Cons a avs)
  from Cons.prems obtain x y where xy: "strptime (startDate a) = Inr x" "strptime (endDate a) = Inr y"
    by auto
  from Cons have "matching_availabilities s e avs = Inr (filter (avail_overlaps s e) avs)"
    by simp
  moreover have "avail_overlaps s e a \<longleftrightarrow> x \<le> e \<and> y \<ge> s"
    using xy by (simp add: avail_overlaps_def)
  ultimately show ?case using xy by simp
qed

lemma format_results_filter:
  assumes "\<forall>r\<in>set results. \<forall>a\<in>set (availabilitiesWithoutBookedDates (base r)).
             (\<exists>x. strptime (startDate a) = Inr x) \<and> (\<exists>y. strptime (endDate a) = Inr y)"
  shows "format_results s e results =
     Inr (map (\<lambda>r. format_result r
                 (filter (avail_overlaps s e) (availabilitiesWithoutBookedDates (base r))))
            (filter (\<lambda>r. \<exists>a\<in>set (availabilitiesWithoutBookedDates (base r)). avail_overlaps s e a)
               results))"
  using assms
proof (induction results)
  case Nil
  show ?case by simp
next
  case (Cons r results)
  from Cons.prems have m: "matching_availabilities s e (availabilitiesWithoutBookedDates (base r))
      = Inr (filter (avail_overlaps s e) (availabilitiesWithoutBookedDates (base r)))"
    by (intro matching_availabilities_filter) simp
  from Cons have ih: "format_results s e results =
     Inr (map (\<lambda>r. format_result r
                 (filter (avail_overlaps s e) (availabilitiesWithoutBookedDates (base r))))
            (filter (\<lambda>r. \<exists>a\<in>set (availabilitiesWithoutBookedDates (base r)). avail_overlaps s e a)
               results))"
    by simp
  have ne: "filter (avail_overlaps s e) (availabilitiesWithoutBookedDates (base r)) \<noteq> []
      \<longleftrightarrow> (\<exists>a\<in>set (availabilitiesWithoutBookedDates (base r)). avail_overlaps s e a)"
    by (simp add: filter_empty_conv)
  show ?case
  proof (cases "\<exists>a\<in>set (availabilitiesWithoutBookedDates (base r)). avail_overlaps s e a")
    case True
    with ne have "filter (avail_overlaps s e) (availabilitiesWithoutBookedDates (base r)) \<noteq> []"
      by simp
    with True m ih show ?thesis by simp
  next
    case False
    with ne have "filter (avail_overlaps s e) (availabilitiesWithoutBookedDates (base r)) = []"
      by simp
    with False m ih show ?thesis by simp
  qed
qed

lemma format_results_member:
  assumes "format_results s e results = Inr out" and "sr \<in> set out"
  shows "\<exists>r\<in>set results. \<exists>m. sr = format_result r m"
  using assms
proof (induction results arbitrary: out)
  case Nil
  then show ?case by simp
next
  case (Cons r results)
  from Cons.prems(1) obtain m rest where
    m: "matching_availabilities s e (availabilitiesWithoutBookedDates (base r)) = Inr m"
    and rest: "format_results s e results = Inr rest"
    and out: "out = (if length m > 0 then format_result r m # rest else rest)"
    by (auto split: sum.splits)
  show ?case
  proof (cases "sr \<in> set rest")
    case True
    from Cons.IH[OF rest True] show ?thesis by auto
  next
    case False
    with Cons.prems(2) out have "sr = format_result r m" by (auto split: if_splits)
    then show ?thesis by auto
  qed
qed

lemma search_member:
  assumes "search start_date end_date results = Inr out" and "sr \<in> set out"
  shows "\<exists>r\<in>set results. \<exists>m. sr = format_result r m"
proof -
  from assms(1) obtain s e where "format_results s e results = Inr out"
    by (auto simp: search_def split: sum.splits)
  from format_results_member[OF this assms(2)] show ?thesis .
qed

lemma distance_not_na: "xs @ '' min'' \<noteq> ''N/A''"
proof
  assume "xs @ '' min'' = ''N/A''"
  then have "last (xs @ '' min'') = last ''N/A''" by simp
  then show False by simp
qed

lemma format_result_fields:
  "sr_id (format_result r m) = homeId (base r)"
  "sr_availabilities (format_result r m) = m"
  "sr_distance (format_result r m) =
     (case driving_time_minutes (base r) of
        None \<Rightarrow> ''N/A''
      | Some t \<Rightarrow> if t = 0 then ''N/A'' else format_1f t @ '' min'')"
  "sr_imageUrl (format_result r m) =
     (case imageUrl (base r) of
        None \<Rightarrow> placeholder_image
      | Some url \<Rightarrow> if url = [] then placeholder_image else url)"
  by (simp_all add: format_result_def)

subsection \<open>The examples, evaluated\<close>

lemma example_search_fields:
  "availabilitiesWithoutBookedDates example_vail = [window_early, window_late]"
  "availabilitiesWithoutBookedDates example_aspen = [window_early, window_late]"
  "availabilitiesWithoutBookedDates example_vail_unknown = [window_early, window_late]"
  "availabilitiesWithoutBookedDates example_late = [window_late\<lparr>avail_id := ''a3'', avail_homeId := ''h3''\<rparr>]"
  "listing_id example_vail_unknown = Some ''h1''" "listing_id example_late = Some ''h3''"
  "homeId example_vail_unknown = Some ''h1''" "homeId example_late = Some ''h3''"
  "driving_time_minutes example_vail_unknown = None"
  "driving_time_minutes example_late = Some 47"
  "imageUrl example_vail = None" "imageUrl example_aspen = None"
  "imageUrl example_vail_unknown = None"
  "resort_entry_of example_vail_unknown = \<lparr>entry_resort = ''Vail'',
      entry_state = Some ''Colorado'', entry_region = ''Rockies'',
      entry_driving_time_minutes = None\<rparr>"
  "resort_entry_of example_late = resort_entry_of example_vail"
  by (simp_all add: example_vail_def example_aspen_def example_vail_unknown_def
      example_late_def window_early_def window_late_def resort_entry_of_def)

lemma window_dates:
  "strptime (startDate window_early) = Inr (2025, 1, 1)"
  "strptime (endDate window_early) = Inr (2025, 1, 12)"
  "strptime (startDate window_late) = Inr (2025, 1, 21)"
  "strptime (endDate window_late) = Inr (2025, 1, 25)"
  "strptime ''2025-01-10'' = Inr (2025, 1, 10)"
  "strptime ''2025-01-20'' = Inr (2025, 1, 20)"
  by (simp_all add: window_early_def window_late_def date_eval)

lemma example_late_second:
  "resort_map_multiple [example_aspen, example_vail, example_late] =
     [\<lparr>base = example_aspen,
       resorts = [resort_entry_of example_aspen, resort_entry_of example_vail],
       min_driving_time = Some 12\<rparr>,
      \<lparr>base = example_late, resorts = [resort_entry_of example_vail],
       min_driving_time = Some 47\<rparr>]"
  by (simp add: resort_map_multiple_def dedup_step_def sort_resorts_def inf_key_def
      example_fields example_search_fields)

lemma example_unknown_vail_first:
  "resort_map_multiple [example_vail_unknown, example_aspen] =
     [\<lparr>base = example_vail_unknown,
       resorts = [resort_entry_of example_aspen, resort_entry_of example_vail_unknown],
       min_driving_time = Some 12\<rparr>]"
  by (simp add: resort_map_multiple_def dedup_step_def sort_resorts_def inf_key_def
      example_fields example_search_fields)

lemma format_1f_examples: "format_1f 47 = ''47.0''" "format_1f 12 = ''12.0''"
  by (simp_all add: format_1f_def round_half_even_def Let_def digit_char_def)

lemma example_search_vail_first:
  "search ''2025-01-10'' ''2025-01-20'' (resort_map_multiple [example_vail, example_aspen])
     = Inr [format_result \<lparr>base = example_vail,
               resorts = [resort_entry_of example_aspen, resort_entry_of example_vail],
               min_driving_time = Some 12\<rparr> [window_early]]"
  unfolding example_vail_first search_def window_dates
  by (simp add: example_search_fields window_dates)

lemma example_search_unknown_first:
  "search ''2025-01-10'' ''2025-01-20''
       (resort_map_multiple [example_vail_unknown, example_aspen])
     = Inr [format_result \<lparr>base = example_vail_unknown,
               resorts = [resort_entry_of example_aspen, resort_entry_of example_vail_unknown],
               min_driving_time = Some 12\<rparr> [window_early]]"
  unfolding example_unknown_vail_first search_def window_dates
  by (simp add: example_search_fields window_dates)

subsection \<open>The claims\<close>

text \<open>
  C7.  When the two search dates and the dates of all availability windows parse,
  \<open>search\<close> returns one result for each home that has a window overlapping the search
  range (inclusive test), in the order of the homes, and for no other home; the
  \<open>availabilities\<close> of a result are exactly the overlapping windows of its home.  With
  the search dates 2025-01-10..2025-01-20 the window 2025-01-01..2025-01-12 overlaps
  and 2025-01-21..2025-01-25 does not.
\<close>

theorem search_keeps_overlapping_homes:
  assumes "strptime start_date = Inr search_start" and "strptime end_date = Inr search_end"
    and "\<forall>r\<in>set results. \<forall>a\<in>set (availabilitiesWithoutBookedDates (base r)).
             (\<exists>x. strptime (startDate a) = Inr x) \<and> (\<exists>y. strptime (endDate a) = Inr y)"
  shows "\<exists>out. search start_date end_date results = Inr out
     \<and> out = map (\<lambda>r. format_result r (filter (avail_overlaps search_start search_end)
                                           (availabilitiesWithoutBookedDates (base r))))
                (filter (\<lambda>r. \<exists>a\<in>set (availabilitiesWithoutBookedDates (base r)).
                                avail_overlaps search_start search_end a) results)
     \<and> map sr_id out
         = map (\<lambda>r. homeId (base r))
             (filter (\<lambda>r. \<exists>a\<in>set (availabilitiesWithoutBookedDates (base r)).
                                avail_overlaps search_start search_end a) results)
     \<and> map sr_availabilities out
         = map (\<lambda>r. filter (avail_overlaps search_start search_end)
                       (availabilitiesWithoutBookedDates (base r)))
             (filter (\<lambda>r. \<exists>a\<in>set (availabilitiesWithoutBookedDates (base r)).
                                avail_overlaps search_start search_end a) results)"
proof -
  have "search start_date end_date results = format_results search_start search_end results"
    using assms(1,2) by (simp add: search_def)
  also note format_results_filter[OF assms(3), of search_start search_end]
  finally show ?thesis by (simp add: format_result_def comp_def)
qed

theorem search_keeps_overlapping_homes_witness:
  "strptime ''2025-01-10'' = Inr (2025, 1, 10) \<and> strptime ''2025-01-20'' = Inr (2025, 1, 20)
   \<and> avail_overlaps (2025, 1, 10) (2025, 1, 20) window_early
   \<and> \<not> avail_overlaps (2025, 1, 10) (2025, 1, 20) window_late
   \<and> map (\<lambda>h. homeId (base h)) (resort_map_multiple [example_aspen, example_vail, example_late])
       = [Some ''h1'', Some ''h3'']
   \<and> (\<exists>out. search ''2025-01-10'' ''2025-01-20''
                (resort_map_multiple [example_aspen, example_vail, example_late]) = Inr out
          \<and> map sr_id out = [Some ''h1'']
          \<and> map sr_availabilities out = [[window_early]])"
proof -
  let ?homes = "resort_map_multiple [example_aspen, example_vail, example_late]"
  define s0 :: date where "s0 = (2025, 1, 10)"
  define e0 :: date where "e0 = (2025, 1, 20)"
  have s: "strptime ''2025-01-10'' = Inr s0" and e: "strptime ''2025-01-20'' = Inr e0"
    unfolding s0_def e0_def by (rule window_dates)+
  have o1: "avail_overlaps s0 e0 window_early"
    by (simp add: avail_overlaps_def window_dates s0_def e0_def)
  have o2: "\<not> avail_overlaps s0 e0 window_late"
    by (simp add: avail_overlaps_def window_dates s0_def e0_def)
  have o3: "\<not> avail_overlaps s0 e0 (window_late\<lparr>avail_id := ''a3'', avail_homeId := ''h3''\<rparr>)"
    by (simp add: avail_overlaps_def window_dates s0_def e0_def)
  have p: "\<forall>r\<in>set ?homes. \<forall>a\<in>set (availabilitiesWithoutBookedDates (base r)).
             (\<exists>x. strptime (startDate a) = Inr x) \<and> (\<exists>y. strptime (endDate a) = Inr y)"
    by (simp add: example_late_second example_search_fields window_dates)
  have ids: "map (\<lambda>h. homeId (base h)) ?homes = [Some ''h1'', Some ''h3'']"
    by (simp add: example_late_second example_fields example_search_fields)
  from search_keeps_overlapping_homes[OF s e p]
  obtain out where out: "search ''2025-01-10'' ''2025-01-20'' ?homes = Inr out"
    and i: "map sr_id out = map (\<lambda>r. homeId (base r))
             (filter (\<lambda>r. \<exists>a\<in>set (availabilitiesWithoutBookedDates (base r)).
                                avail_overlaps s0 e0 a) ?homes)"
    and a: "map sr_availabilities out
         = map (\<lambda>r. filter (avail_overlaps s0 e0) (availabilitiesWithoutBookedDates (base r)))
             (filter (\<lambda>r. \<exists>a\<in>set (availabilitiesWithoutBookedDates (base r)).
                                avail_overlaps s0 e0 a) ?homes)"
    by blast
  have "map sr_id out = [Some ''h1'']"
    unfolding i by (simp add: example_late_second example_search_fields example_fields o1 o2 o3)
  moreover have "map sr_availabilities out = [[window_early]]"
    unfolding a by (simp add: example_late_second example_search_fields example_fields o1 o2 o3)
  ultimately have ex: "\<exists>out. search ''2025-01-10'' ''2025-01-20'' ?homes = Inr out
          \<and> map sr_id out = [Some ''h1'']
          \<and> map sr_availabilities out = [[window_early]]"
    using out by (intro exI[of _ out] conjI)
  show ?thesis
    using s e o1 o2 ids ex unfolding s0_def e0_def by (intro conjI)
qed

text \<open>
  C8 (as amended).  Every result that \<open>search\<close> emits for the output of
  \<open>resort_map_multiple\<close> belongs to a home id with its first-seen listing \<open>first\<close>:
  the distance string is "N/A" when the driving time of \<open>first\<close> is unknown, and it is
  that time (not zero) in the format \<open>{:.1f} min\<close>, never "N/A", when it is known; the
  image URL is the placeholder when \<open>first\<close> has no image URL or an empty one, and its
  own URL otherwise.
\<close>

theorem search_distance_and_image:
  assumes "search start_date end_date (resort_map_multiple results_full) = Inr out"
    and "sr \<in> set out"
  shows "\<exists>k first rest. k \<noteq> []
      \<and> filter (\<lambda>r. listing_id r = Some k) results_full = first # rest
      \<and> sr_id sr = homeId first
      \<and> sr_driveTime sr = driving_time_minutes first
      \<and> (driving_time_minutes first = None \<longrightarrow> sr_distance sr = ''N/A'')
      \<and> (\<forall>t. driving_time_minutes first = Some t \<and> t \<noteq> 0 \<longrightarrow>
            sr_distance sr = format_1f t @ '' min'' \<and> sr_distance sr \<noteq> ''N/A'')
      \<and> (imageUrl first = None \<or> imageUrl first = Some [] \<longrightarrow>
            sr_imageUrl sr = placeholder_image)
      \<and> (\<forall>u. imageUrl first = Some u \<and> u \<noteq> [] \<longrightarrow> sr_imageUrl sr = u)"
proof -
  from search_member[OF assms] obtain r m where
    r: "r \<in> set (resort_map_multiple results_full)" and sr: "sr = format_result r m"
    by blast
  from home_of_member[OF r] obtain k first rest where
    k: "k \<noteq> []" and ls: "listings_of k results_full = first # rest" and b: "base r = first"
    by blast
  from ls have f: "filter (\<lambda>r. listing_id r = Some k) results_full = first # rest"
    by (simp add: listings_of_def)
  have 1: "sr_id sr = homeId first" "sr_driveTime sr = driving_time_minutes first"
    unfolding sr by (simp_all add: format_result_def b)
  have 2: "sr_distance sr = ''N/A''" if "driving_time_minutes first = None"
    unfolding sr using that by (simp add: format_result_def b)
  have 3: "sr_distance sr = format_1f t @ '' min''"
    if "driving_time_minutes first = Some t" "t \<noteq> 0" for t
    unfolding sr using that by (simp add: format_result_def b)
  have 4: "sr_imageUrl sr = placeholder_image"
    if "imageUrl first = None \<or> imageUrl first = Some []"
    unfolding sr using that by (auto simp: format_result_def b)
  have 5: "sr_imageUrl sr = u" if "imageUrl first = Some u" "u \<noteq> []" for u
    unfolding sr using that by (simp add: format_result_def b)
  from 3 have 6: "sr_distance sr \<noteq> ''N/A''"
    if "driving_time_minutes first = Some t" "t \<noteq> 0" for t
    using that distance_not_na[of "format_1f t"] by simp
  show ?thesis
    using k f 1 2 3 4 5 6 by (intro exI[of _ k] exI[of _ first] exI[of _ rest]) auto
qed

theorem search_distance_and_image_witness:
  "driving_time_minutes example_vail = Some 47 \<and> imageUrl example_vail = None
   \<and> (\<exists>out. search ''2025-01-10'' ''2025-01-20''
                (resort_map_multiple [example_vail, example_aspen]) = Inr out
          \<and> map sr_distance out = [''47.0 min'']
          \<and> map sr_imageUrl out = [placeholder_image])"
proof -
  define sr where "sr = format_result \<lparr>base = example_vail,
               resorts = [resort_entry_of example_aspen, resort_entry_of example_vail],
               min_driving_time = Some 12\<rparr> [window_early]"
  have out: "search ''2025-01-10'' ''2025-01-20''
      (resort_map_multiple [example_vail, example_aspen]) = Inr [sr]"
    unfolding sr_def by (rule example_search_vail_first)
  have mem: "sr \<in> set [sr]" by simp
  from search_distance_and_image[OF out mem] obtain k first rest where
    f: "filter (\<lambda>r. listing_id r = Some k) [example_vail, example_aspen] = first # rest"
    and d: "\<forall>t. driving_time_minutes first = Some t \<and> t \<noteq> 0 \<longrightarrow>
            sr_distance sr = format_1f t @ '' min'' \<and> sr_distance sr \<noteq> ''N/A''"
    and i: "imageUrl first = None \<or> imageUrl first = Some [] \<longrightarrow>
            sr_imageUrl sr = placeholder_image"
    by blast
  from f have first: "first = example_vail"
    by (auto simp: example_fields split: if_splits)
  have t: "driving_time_minutes example_vail = Some 47" by (simp add: example_fields)
  have u: "imageUrl example_vail = None" by (simp add: example_search_fields)
  from d first t have "sr_distance sr = format_1f 47 @ '' min''" by simp
  then have 1: "map sr_distance [sr] = [''47.0 min'']" by (simp add: format_1f_examples)
  from i first u have 2: "map sr_imageUrl [sr] = [placeholder_image]" by simp
  from out 1 2 have "\<exists>out. search ''2025-01-10'' ''2025-01-20''
                (resort_map_multiple [example_vail, example_aspen]) = Inr out
          \<and> map sr_distance out = [''47.0 min'']
          \<and> map sr_imageUrl out = [placeholder_image]"
    by (intro exI[of _ "[sr]"] conjI)
  with t u show ?thesis by (intro conjI)
qed

text \<open>C8, the claim as stated: the home found near Vail first (47 minutes) and then
  near Aspen (12 minutes) has the minimum driving time 12, yet its distance string is
  "47.0 min" and not "12.0 min"; with the Vail time unknown the minimum is still 12,
  a known time, and the distance string is "N/A".\<close>

theorem search_distance_is_not_minimum_counterexample:
  "map min_driving_time (resort_map_multiple [example_vail, example_aspen]) = [Some 12]
   \<and> map_sum id (map sr_distance)
        (search ''2025-01-10'' ''2025-01-20'' (resort_map_multiple [example_vail, example_aspen]))
       = Inr [''47.0 min'']
   \<and> format_1f 12 @ '' min'' = ''12.0 min''
   \<and> map min_driving_time (resort_map_multiple [example_vail_unknown, example_aspen]) = [Some 12]
   \<and> map_sum id (map sr_distance)
        (search ''2025-01-10'' ''2025-01-20''
           (resort_map_multiple [example_vail_unknown, example_aspen]))
       = Inr [''N/A'']"
  unfolding example_search_vail_first example_search_unknown_first
  by (simp add: example_vail_first example_unknown_vail_first format_result_fields
      example_fields example_search_fields format_1f_examples)


end
